theory Spec2Isabelle
  imports Complex_Main "HOL-Library.Sublist"
begin

section \<open>Iterative solvers for linear systems (methodsDeepseek.py)\<close>

text \<open>
  The four solvers and their dispatcher are embedded as HOL functions.

  \<^item> A one-dimensional numpy array is a list of reals; a matrix (scipy sparse or dense
    numpy) is the list of its rows. The embedding describes conforming shapes: a square
    matrix of \<open>n\<close> rows of length \<open>n\<close>, vectors of length \<open>n\<close> (predicate \<open>conforming\<close>).
  \<^item> Floating-point numbers are reals: rounding is not modelled. numpy divides by zero
    without raising (the quotient is \<open>inf\<close> or \<open>nan\<close>); the quotient of HOL is \<open>0\<close>
    there, so the embedding describes the runs in which no divisor is zero.
  \<^item> The loop variable \<open>k\<close> of \<open>for k in range(max_iter)\<close> is unbound until the first
    iteration assigns it: it is a \<open>nat option\<close>, and reading it unbound raises.
  \<^item> The two readings of \<open>process_time()\<close> are an input of every solver.
\<close>

subsection \<open>Vectors and matrices\<close>

type_synonym vec = "real list"
type_synonym mat = "real list list"

definition vadd :: "vec \<Rightarrow> vec \<Rightarrow> vec" where
  "vadd u v = map2 (+) u v"

definition vsub :: "vec \<Rightarrow> vec \<Rightarrow> vec" where
  "vsub u v = map2 (-) u v"

definition smul :: "real \<Rightarrow> vec \<Rightarrow> vec" where
  "smul a v = map ((*) a) v"

text \<open>\<open>u.dot(v)\<close> and \<open>u @ v\<close> on one-dimensional arrays.\<close>

definition vdot :: "vec \<Rightarrow> vec \<Rightarrow> real" where
  "vdot u v = sum_list (map2 (*) u v)"

text \<open>\<open>np.linalg.norm(v)\<close>: the Euclidean norm.\<close>

definition norm2 :: "vec \<Rightarrow> real" where
  "norm2 v = sqrt (sum_list (map (\<lambda>a. a * a) v))"

text \<open>\<open>A.dot(v)\<close> for a matrix \<open>A\<close>.\<close>

definition matvec :: "mat \<Rightarrow> vec \<Rightarrow> vec" where
  "matvec A v = map (\<lambda>row. vdot row v) A"

definition zeros_like :: "vec \<Rightarrow> vec" where
  "zeros_like b = replicate (length b) 0"

text \<open>\<open>A.diagonal()\<close> of a square matrix.\<close>

definition diagonal :: "mat \<Rightarrow> vec" where
  "diagonal A = map (\<lambda>i. A ! i ! i) [0..<length A]"

text \<open>\<open>sp.diags(d)\<close>: the square matrix with \<open>d\<close> on its main diagonal.\<close>

definition diags :: "vec \<Rightarrow> mat" where
  "diags d = map (\<lambda>i. map (\<lambda>j. if i = j then d ! i else 0) [0..<length d]) [0..<length d]"

text \<open>\<open>A - D\<close> on matrices of one shape.\<close>

definition msub :: "mat \<Rightarrow> mat \<Rightarrow> mat" where
  "msub A D = map2 (map2 (-)) A D"

text \<open>\<open>A.toarray()\<close>: the dense array with the entries of the sparse matrix.\<close>

definition toarray :: "mat \<Rightarrow> mat" where
  "toarray A = A"

definition conforming :: "mat \<Rightarrow> vec \<Rightarrow> vec \<Rightarrow> bool" where
  "conforming A b x_exact \<longleftrightarrow>
     length b = length A \<and> length x_exact = length A \<and> list_all (\<lambda>row. length row = length A) A"

subsection \<open>Results and errors\<close>

datatype py_error = UnboundLocalError | ValueError string

record result =
  sol :: vec
  iterations :: nat
  elapsed :: real
  rel_error :: real

type_synonym clock = "real \<times> real"

type_synonym solver = "clock \<Rightarrow> mat \<Rightarrow> vec \<Rightarrow> vec \<Rightarrow> real \<Rightarrow> int \<Rightarrow> py_error + result"

text \<open>
  The last two statements of every solver: the relative error of \<open>x\<close>, then the tuple,
  whose second component reads \<open>k\<close>.
\<close>

definition finish :: "clock \<Rightarrow> vec \<Rightarrow> vec \<Rightarrow> nat option \<Rightarrow> py_error + result" where
  "finish clk x x_exact k =
     (let error = norm2 (vsub x x_exact) / norm2 x_exact
      in case k of
           None \<Rightarrow> Inl UnboundLocalError
         | Some k \<Rightarrow> Inr \<lparr>sol = x, iterations = k + 1, elapsed = snd clk - fst clk,
                          rel_error = error\<rparr>)"

subsection \<open>The loop \<open>for k in range(max_iter)\<close> with \<open>break\<close>\<close>

text \<open>
  Every solver runs \<open>for k in range(max_iter): ...; if rel_res < tol: break; ...\<close>.
  The body of a solver maps the variables it assigns to a flag (\<open>True\<close>: the body left
  through \<open>break\<close>) and their values when the body ends. \<open>for_range\<close> runs a body over
  the indices of the range; it binds \<open>k\<close> at the start of each iteration.
\<close>

fun for_range :: "('s \<Rightarrow> bool \<times> 's) \<Rightarrow> nat list \<Rightarrow> 's \<times> nat option \<Rightarrow> 's \<times> nat option" where
  "for_range body [] (s, k) = (s, k)"
| "for_range body (k # ks) (s, _) =
     (case body s of
        (True, s') \<Rightarrow> (s', Some k)
      | (False, s') \<Rightarrow> for_range body ks (s', Some k))"

text \<open>The values of the variables at the start of each iteration that the loop runs.\<close>

fun loop_heads :: "('s \<Rightarrow> bool \<times> 's) \<Rightarrow> nat list \<Rightarrow> 's \<Rightarrow> 's list" where
  "loop_heads body [] s = []"
| "loop_heads body (k # ks) s =
     s # (case body s of
            (True, s') \<Rightarrow> []
          | (False, s') \<Rightarrow> loop_heads body ks s')"

subsection \<open>Jacobi\<close>

definition jacobi_body :: "mat \<Rightarrow> mat \<Rightarrow> mat \<Rightarrow> vec \<Rightarrow> real \<Rightarrow> vec \<Rightarrow> bool \<times> vec" where
  "jacobi_body A D_inv R b tol x =
     (let x_new = matvec D_inv (vsub b (matvec R x));
          residual = vsub (matvec A x_new) b;
          rel_res = norm2 residual / norm2 b
      in if rel_res < tol then (True, x)
         else (let x = x_new in (False, x)))"

definition jacobi :: solver where
  "jacobi clk A b x_exact tol max_iter =
     (let x = zeros_like b;
          D = diags (diagonal A);
          D_inv = diags (map (\<lambda>d. 1 / d) (diagonal A));
          R = msub A D;
          (x, k) = for_range (jacobi_body A D_inv R b tol) [0..<nat max_iter] (x, None)
      in finish clk x x_exact k)"

subsection \<open>Gauss-Seidel\<close>

text \<open>The inner loop \<open>for i in range(A.shape[0])\<close>, which assigns \<open>x[i]\<close> in place.\<close>

fun gs_sweep :: "mat \<Rightarrow> vec \<Rightarrow> vec \<Rightarrow> nat list \<Rightarrow> vec \<Rightarrow> vec" where
  "gs_sweep A b x_old [] x = x"
| "gs_sweep A b x_old (i # is) x =
     gs_sweep A b x_old is
       (x[i := (b ! i - vdot (take i (A ! i)) (take i x)
                      - vdot (drop (i + 1) (A ! i)) (drop (i + 1) x_old)) / A ! i ! i])"

definition gs_body :: "mat \<Rightarrow> vec \<Rightarrow> real \<Rightarrow> vec \<Rightarrow> bool \<times> vec" where
  "gs_body A b tol x =
     (let x_old = x;
          x = gs_sweep A b x_old [0..<length A] x;
          residual = vsub (matvec A x) b;
          rel_res = norm2 residual / norm2 b
      in if rel_res < tol then (True, x) else (False, x))"

definition gauss_seidel :: solver where
  "gauss_seidel clk A b x_exact tol max_iter =
     (let x = zeros_like b;
          A = toarray A;
          (x, k) = for_range (gs_body A b tol) [0..<nat max_iter] (x, None)
      in finish clk x x_exact k)"

subsection \<open>Gradient\<close>

definition gradient_body :: "mat \<Rightarrow> vec \<Rightarrow> real \<Rightarrow> vec \<times> vec \<times> vec \<Rightarrow> bool \<times> vec \<times> vec \<times> vec" where
  "gradient_body A b tol = (\<lambda>(x, r, p).
     (let Ap = matvec A p;
          alpha = vdot r r / vdot p Ap;
          x = vadd x (smul alpha p);
          r_new = vsub r (smul alpha Ap);
          rel_res = norm2 r_new / norm2 b
      in if rel_res < tol then (True, x, r, p)
         else (let beta = vdot r_new r_new / vdot r r;
                   p = vadd r_new (smul beta p);
                   r = r_new
               in (False, x, r, p))))"

definition gradient :: solver where
  "gradient clk A b x_exact tol max_iter =
     (let x = zeros_like b;
          r = vsub b (matvec A x);
          p = r;
          ((x, r, p), k) = for_range (gradient_body A b tol) [0..<nat max_iter] ((x, r, p), None)
      in finish clk x x_exact k)"

subsection \<open>Conjugate gradient\<close>

definition cg_body :: "mat \<Rightarrow> vec \<Rightarrow> real \<Rightarrow> vec \<times> vec \<times> vec \<times> real
    \<Rightarrow> bool \<times> vec \<times> vec \<times> vec \<times> real" where
  "cg_body A b tol = (\<lambda>(x, r, p, rsold).
     (let Ap = matvec A p;
          alpha = rsold / vdot p Ap;
          x = vadd x (smul alpha p);
          r = vsub r (smul alpha Ap);
          rsnew = vdot r r;
          rel_res = sqrt rsnew / norm2 b
      in if rel_res < tol then (True, x, r, p, rsold)
         else (let p = vadd r (smul (rsnew / rsold) p);
                   rsold = rsnew
               in (False, x, r, p, rsold))))"

definition conjugate_gradient :: solver where
  "conjugate_gradient clk A b x_exact tol max_iter =
     (let x = zeros_like b;
          r = vsub b (matvec A x);
          p = r;
          rsold = vdot r r;
          ((x, r, p, rsold), k) =
             for_range (cg_body A b tol) [0..<nat max_iter] ((x, r, p, rsold), None)
      in finish clk x x_exact k)"

subsection \<open>Dispatcher\<close>

text \<open>
  \<open>str.lower()\<close> on ASCII identifiers: the letters \<open>A\<close> to \<open>Z\<close> are lowered and every other
  character is kept. Python lowers letters outside ASCII too. No key of \<open>method_map\<close> has
  a character outside ASCII and no letter outside ASCII lowers to letters of a key, so
  the look-up is the program's for every identifier; the lowered identifier itself, which
  the error message repeats, is the program's for ASCII identifiers.
\<close>

definition lower_char :: "char \<Rightarrow> char" where
  "lower_char c =
     (case map_of (zip ''ABCDEFGHIJKLMNOPQRSTUVWXYZ'' ''abcdefghijklmnopqrstuvwxyz'') c of
        None \<Rightarrow> c
      | Some l \<Rightarrow> l)"

definition lower :: "string \<Rightarrow> string" where
  "lower s = map lower_char s"

text \<open>\<open>s.replace(a, b)\<close> for one-character \<open>a\<close> and \<open>b\<close>.\<close>

definition replace :: "char \<Rightarrow> char \<Rightarrow> string \<Rightarrow> string" where
  "replace a b s = map (\<lambda>c. if c = a then b else c) s"

definition normalize_method :: "string \<Rightarrow> string" where
  "normalize_method method = replace CHR '' '' CHR ''_'' (replace CHR ''-'' CHR ''_'' (lower method))"

definition method_map :: "string \<Rightarrow> solver option" where
  "method_map = map_of
     [(''jacobi'', jacobi),
      (''gauss_seidel'', gauss_seidel),
      (''gs'', gauss_seidel),
      (''gradient'', gradient),
      (''grad'', gradient),
      (''conjugate_gradient'', conjugate_gradient),
      (''cg'', conjugate_gradient),
      (''gradiente'', gradient),
      (''gradiente_coniugato'', conjugate_gradient)]"

definition invalid_method_message :: "string \<Rightarrow> string" where
  "invalid_method_message method =
     ''Metodo '' @ method @ '' non valido. Scegli tra: '' @ [CHR 0x0A] @
     ''- '' @ [CHR 0x27] @ ''jacobi'' @ [CHR 0x27, CHR 0x0A] @
     ''- '' @ [CHR 0x27] @ ''gauss_seidel'' @ [CHR 0x27] @ ''/'' @ [CHR 0x27] @ ''gs''
        @ [CHR 0x27, CHR 0x0A] @
     ''- '' @ [CHR 0x27] @ ''gradient'' @ [CHR 0x27] @ ''/'' @ [CHR 0x27] @ ''grad''
        @ [CHR 0x27, CHR 0x0A] @
     ''- '' @ [CHR 0x27] @ ''conjugate_gradient'' @ [CHR 0x27] @ ''/'' @ [CHR 0x27] @ ''cg''
        @ [CHR 0x27]"

definition solve_linear_system :: "string \<Rightarrow> solver" where
  "solve_linear_system method clk A b x_exact tol max_iter =
     (let method = normalize_method method
      in case method_map method of
           None \<Rightarrow> Inl (ValueError (invalid_method_message method))
         | Some f \<Rightarrow> f clk A b x_exact tol max_iter)"

section \<open>The recurrences of the specification\<close>

text \<open>
  The conjugate gradient, gradient and Gauss-Seidel methods as the specification words
  them: a sequence of iterates indexed by the number of updates, the test that ends the iteration after
  the \<open>k\<close>-th update, and the number of updates made when at most \<open>n\<close> are allowed.
  These definitions follow the specification; the theorems compare them with the solvers
  above.
\<close>

definition first_stop :: "(nat \<Rightarrow> bool) \<Rightarrow> nat \<Rightarrow> nat" where
  "first_stop P n = (case find P [1..<Suc n] of Some k \<Rightarrow> k | None \<Rightarrow> n)"

text \<open>
  Conjugate gradient: \<open>r_0 = b\<close>, \<open>p_0 = r_0\<close>, \<open>rsold = r_0\<cdot>r_0\<close>; then
  \<open>Ap = A\<cdot>p\<close>, \<open>\<alpha> = rsold/(p\<cdot>Ap)\<close>, \<open>x += \<alpha>\<cdot>p\<close>, \<open>r -= \<alpha>\<cdot>Ap\<close>, \<open>rsnew = r\<cdot>r\<close>,
  \<open>\<beta> = rsnew/rsold\<close>, \<open>p = r + \<beta>\<cdot>p\<close>, \<open>rsold = rsnew\<close>.
\<close>

fun cg_seq :: "mat \<Rightarrow> vec \<Rightarrow> nat \<Rightarrow> vec \<times> vec \<times> vec \<times> real" where
  "cg_seq A b 0 = (replicate (length b) 0, b, b, vdot b b)"
| "cg_seq A b (Suc k) =
     (case cg_seq A b k of (x, r, p, rsold) \<Rightarrow>
        (let Ap = matvec A p;
             alpha = rsold / vdot p Ap;
             x' = vadd x (smul alpha p);
             r' = vsub r (smul alpha Ap);
             rsnew = vdot r' r';
             beta = rsnew / rsold
         in (x', r', vadd r' (smul beta p), rsnew)))"

text \<open>Terminate when \<open>\<surd>rsnew/\<parallel>b\<parallel> < tolerance\<close>.\<close>

definition cg_stops :: "mat \<Rightarrow> vec \<Rightarrow> real \<Rightarrow> nat \<Rightarrow> bool" where
  "cg_stops A b tol k = (case cg_seq A b k of (x, r, p, rsnew) \<Rightarrow> sqrt rsnew / norm2 b < tol)"



text \<open>
  Gauss-Seidel: starting from the zero vector, a sweep computes the components in
  increasing index order,
  \<open>x[i] = (b[i] - \<Sum>_{j<i} A[i,j]\<cdot>x[j] - \<Sum>_{j>i} A[i,j]\<cdot>x_old[j]) / A[i,i]\<close>, from the
  components \<open>x[0..i)\<close> that the sweep has already computed and the components
  \<open>x_old[i+1..n)\<close> of the previous sweep. \<open>gs_spec_prefix A b x_old i\<close> is \<open>x[0..i)\<close>.
\<close>

fun gs_spec_prefix :: "mat \<Rightarrow> vec \<Rightarrow> vec \<Rightarrow> nat \<Rightarrow> vec" where
  "gs_spec_prefix A b x_old 0 = []"
| "gs_spec_prefix A b x_old (Suc i) =
     (let x = gs_spec_prefix A b x_old i
      in x @ [(b ! i - (\<Sum>j<i. A ! i ! j * x ! j)
                     - (\<Sum>j = i + 1..<length A. A ! i ! j * x_old ! j)) / A ! i ! i])"

definition gs_spec_sweep :: "mat \<Rightarrow> vec \<Rightarrow> vec \<Rightarrow> vec" where
  "gs_spec_sweep A b x_old = gs_spec_prefix A b x_old (length A)"

fun gs_seq :: "mat \<Rightarrow> vec \<Rightarrow> nat \<Rightarrow> vec" where
  "gs_seq A b 0 = replicate (length b) 0"
| "gs_seq A b (Suc k) = gs_spec_sweep A b (gs_seq A b k)"

text \<open>
  Terminate when \<open>\<parallel>A\<cdot>x - b\<parallel>/\<parallel>b\<parallel> < tolerance\<close>, computed once per full sweep: the test
  after the \<open>k\<close>-th sweep is on the vector that the whole sweep leaves.
\<close>

definition gs_stops :: "mat \<Rightarrow> vec \<Rightarrow> real \<Rightarrow> nat \<Rightarrow> bool" where
  "gs_stops A b tol k = (norm2 (vsub (matvec A (gs_seq A b k)) b) / norm2 b < tol)"

section \<open>The solvers on a store\<close>

text \<open>
  numpy arrays and scipy matrices are mutable objects, and the arguments of a solver are
  references. To say which objects a solver writes, the solvers are written once more
  over a store: a list of objects, a reference being an index. Every expression that
  builds an array (\<open>np.zeros_like\<close>, \<open>x.copy()\<close>, \<open>A.toarray()\<close>, \<open>sp.diags\<close>, \<open>A.dot(x)\<close>,
  \<open>u - v\<close>) allocates; an assignment \<open>x = x_new\<close> copies the reference; \<open>x[i] = v\<close>,
  \<open>x += v\<close> and \<open>r -= v\<close> write into the object that the variable references. The
  values written are computed with the functions of the first sections.
\<close>

datatype obj = Array vec | Dense mat | Sparse mat

type_synonym heap = "obj list"

type_synonym ref = nat

definition alloc :: "heap \<Rightarrow> obj \<Rightarrow> heap \<times> ref" where
  "alloc h v = (h @ [v], length h)"

definition arr :: "heap \<Rightarrow> ref \<Rightarrow> vec" where
  "arr h a = (case h ! a of Array v \<Rightarrow> v | Dense m \<Rightarrow> [] | Sparse m \<Rightarrow> [])"

definition mat_at :: "heap \<Rightarrow> ref \<Rightarrow> mat" where
  "mat_at h a = (case h ! a of Array v \<Rightarrow> [] | Dense m \<Rightarrow> m | Sparse m \<Rightarrow> m)"

text \<open>Writing the contents of the array that \<open>a\<close> references.\<close>

definition assign :: "heap \<Rightarrow> ref \<Rightarrow> vec \<Rightarrow> heap" where
  "assign h a v = h[a := Array v]"

type_synonym solver_h =
  "clock \<Rightarrow> heap \<Rightarrow> ref \<Rightarrow> ref \<Rightarrow> ref \<Rightarrow> real \<Rightarrow> int \<Rightarrow> (py_error + ref \<times> nat \<times> real \<times> real) \<times> heap"

definition finish_h :: "clock \<Rightarrow> heap \<Rightarrow> ref \<Rightarrow> ref \<Rightarrow> nat option
    \<Rightarrow> py_error + ref \<times> nat \<times> real \<times> real" where
  "finish_h clk h x x_exact k =
     (let error = norm2 (vsub (arr h x) (arr h x_exact)) / norm2 (arr h x_exact)
      in case k of
           None \<Rightarrow> Inl UnboundLocalError
         | Some k \<Rightarrow> Inr (x, k + 1, snd clk - fst clk, error))"

definition jacobi_body_h :: "ref \<Rightarrow> ref \<Rightarrow> ref \<Rightarrow> ref \<Rightarrow> real \<Rightarrow> heap \<times> ref
    \<Rightarrow> bool \<times> heap \<times> ref" where
  "jacobi_body_h A D_inv R b tol = (\<lambda>(h, x).
     (let (h, x_new) = alloc h (Array (matvec (mat_at h D_inv)
                                  (vsub (arr h b) (matvec (mat_at h R) (arr h x)))));
          (h, residual) = alloc h (Array (vsub (matvec (mat_at h A) (arr h x_new)) (arr h b)));
          rel_res = norm2 (arr h residual) / norm2 (arr h b)
      in if rel_res < tol then (True, h, x)
         else (let x = x_new in (False, h, x))))"

definition jacobi_h :: solver_h where
  "jacobi_h clk h A b x_exact tol max_iter =
     (let (h, x) = alloc h (Array (zeros_like (arr h b)));
          (h, D) = alloc h (Sparse (diags (diagonal (mat_at h A))));
          (h, D_inv) = alloc h (Sparse (diags (map (\<lambda>d. 1 / d) (diagonal (mat_at h A)))));
          (h, R) = alloc h (Sparse (msub (mat_at h A) (mat_at h D)));
          ((h, x), k) = for_range (jacobi_body_h A D_inv R b tol) [0..<nat max_iter]
                          ((h, x), None)
      in (finish_h clk h x x_exact k, h))"

fun gs_sweep_h :: "ref \<Rightarrow> ref \<Rightarrow> ref \<Rightarrow> nat list \<Rightarrow> ref \<Rightarrow> heap \<Rightarrow> heap" where
  "gs_sweep_h A b x_old [] x h = h"
| "gs_sweep_h A b x_old (i # is) x h =
     gs_sweep_h A b x_old is x
       (assign h x ((arr h x)[i :=
          (arr h b ! i - vdot (take i (mat_at h A ! i)) (take i (arr h x))
                       - vdot (drop (i + 1) (mat_at h A ! i)) (drop (i + 1) (arr h x_old)))
            / mat_at h A ! i ! i]))"

definition gs_body_h :: "ref \<Rightarrow> ref \<Rightarrow> real \<Rightarrow> heap \<times> ref \<Rightarrow> bool \<times> heap \<times> ref" where
  "gs_body_h A b tol = (\<lambda>(h, x).
     (let (h, x_old) = alloc h (Array (arr h x));
          h = gs_sweep_h A b x_old [0..<length (mat_at h A)] x h;
          (h, residual) = alloc h (Array (vsub (matvec (mat_at h A) (arr h x)) (arr h b)));
          rel_res = norm2 (arr h residual) / norm2 (arr h b)
      in if rel_res < tol then (True, h, x) else (False, h, x)))"

definition gauss_seidel_h :: solver_h where
  "gauss_seidel_h clk h A b x_exact tol max_iter =
     (let (h, x) = alloc h (Array (zeros_like (arr h b)));
          (h, A) = alloc h (Dense (toarray (mat_at h A)));
          ((h, x), k) = for_range (gs_body_h A b tol) [0..<nat max_iter] ((h, x), None)
      in (finish_h clk h x x_exact k, h))"

definition gradient_body_h :: "ref \<Rightarrow> ref \<Rightarrow> real \<Rightarrow> heap \<times> ref \<times> ref \<times> ref
    \<Rightarrow> bool \<times> heap \<times> ref \<times> ref \<times> ref" where
  "gradient_body_h A b tol = (\<lambda>(h, x, r, p).
     (let (h, Ap) = alloc h (Array (matvec (mat_at h A) (arr h p)));
          alpha = vdot (arr h r) (arr h r) / vdot (arr h p) (arr h Ap);
          h = assign h x (vadd (arr h x) (smul alpha (arr h p)));
          (h, r_new) = alloc h (Array (vsub (arr h r) (smul alpha (arr h Ap))));
          rel_res = norm2 (arr h r_new) / norm2 (arr h b)
      in if rel_res < tol then (True, h, x, r, p)
         else (let beta = vdot (arr h r_new) (arr h r_new) / vdot (arr h r) (arr h r);
                   (h, p) = alloc h (Array (vadd (arr h r_new) (smul beta (arr h p))));
                   r = r_new
               in (False, h, x, r, p))))"

definition gradient_h :: solver_h where
  "gradient_h clk h A b x_exact tol max_iter =
     (let (h, x) = alloc h (Array (zeros_like (arr h b)));
          (h, r) = alloc h (Array (vsub (arr h b) (matvec (mat_at h A) (arr h x))));
          (h, p) = alloc h (Array (arr h r));
          ((h, x, r, p), k) = for_range (gradient_body_h A b tol) [0..<nat max_iter]
                                ((h, x, r, p), None)
      in (finish_h clk h x x_exact k, h))"

definition cg_body_h :: "ref \<Rightarrow> ref \<Rightarrow> real \<Rightarrow> heap \<times> ref \<times> ref \<times> ref \<times> real
    \<Rightarrow> bool \<times> heap \<times> ref \<times> ref \<times> ref \<times> real" where
  "cg_body_h A b tol = (\<lambda>(h, x, r, p, rsold).
     (let (h, Ap) = alloc h (Array (matvec (mat_at h A) (arr h p)));
          alpha = rsold / vdot (arr h p) (arr h Ap);
          h = assign h x (vadd (arr h x) (smul alpha (arr h p)));
          h = assign h r (vsub (arr h r) (smul alpha (arr h Ap)));
          rsnew = vdot (arr h r) (arr h r);
          rel_res = sqrt rsnew / norm2 (arr h b)
      in if rel_res < tol then (True, h, x, r, p, rsold)
         else (let (h, p) = alloc h (Array (vadd (arr h r) (smul (rsnew / rsold) (arr h p))));
                   rsold = rsnew
               in (False, h, x, r, p, rsold))))"

definition conjugate_gradient_h :: solver_h where
  "conjugate_gradient_h clk h A b x_exact tol max_iter =
     (let (h, x) = alloc h (Array (zeros_like (arr h b)));
          (h, r) = alloc h (Array (vsub (arr h b) (matvec (mat_at h A) (arr h x))));
          (h, p) = alloc h (Array (arr h r));
          rsold = vdot (arr h r) (arr h r);
          ((h, x, r, p, rsold), k) = for_range (cg_body_h A b tol) [0..<nat max_iter]
                                       ((h, x, r, p, rsold), None)
      in (finish_h clk h x x_exact k, h))"

text \<open>
  The store that a caller sees when it holds a sparse matrix and two arrays, and the
  result of a solver with the solution read from the final store.
\<close>

definition inputs_at :: "heap \<Rightarrow> ref \<Rightarrow> ref \<Rightarrow> ref \<Rightarrow> mat \<Rightarrow> vec \<Rightarrow> vec \<Rightarrow> bool" where
  "inputs_at h A b x_exact Av bv xv \<longleftrightarrow>
     A < length h \<and> b < length h \<and> x_exact < length h \<and>
     h ! A = Sparse Av \<and> h ! b = Array bv \<and> h ! x_exact = Array xv"

definition read_result :: "(py_error + ref \<times> nat \<times> real \<times> real) \<times> heap \<Rightarrow> py_error + result" where
  "read_result out =
     (case out of
        (Inl e, h) \<Rightarrow> Inl e
      | (Inr (x, k, t, error), h) \<Rightarrow>
          Inr \<lparr>sol = arr h x, iterations = k, elapsed = t, rel_error = error\<rparr>)"

section \<open>Properties\<close>

subsection \<open>Evaluation lemmas\<close>

lemma upt_one: "1 \<le> n \<Longrightarrow> [0..<n] = 0 # [1..<n]"
  by (simp add: upt_conv_Cons)

lemma upt_two: "2 \<le> n \<Longrightarrow> [0..<n] = 0 # 1 # [2..<n]"
  by (simp add: upt_conv_Cons eval_nat_numeral)

lemma norm2_ratio_less:
  "0 < t \<Longrightarrow> (norm2 u / norm2 v < t) =
     (sum_list (map (\<lambda>a. a * a) u) / sum_list (map (\<lambda>a. a * a) v) < t * t)"
proof -
  assume t: "0 < t"
  let ?a = "sum_list (map (\<lambda>a. a * a) u)" and ?c = "sum_list (map (\<lambda>a. a * a) v)"
  have "norm2 u / norm2 v = sqrt (?a / ?c)" by (simp add: norm2_def real_sqrt_divide)
  moreover have "t = sqrt (t * t)" using t by simp
  ultimately have "(norm2 u / norm2 v < t) = (sqrt (?a / ?c) < sqrt (t * t))" by simp
  then show ?thesis by (simp only: real_sqrt_less_iff)
qed

lemma norm2_ratio_eq:
  "0 \<le> t \<Longrightarrow> sum_list (map (\<lambda>a. a * a) u) / sum_list (map (\<lambda>a. a * a) v) = t * t
     \<Longrightarrow> norm2 u / norm2 v = t"
  by (simp add: norm2_def real_sqrt_divide[symmetric])

lemma sqrt_norm2_ratio_less:
  "0 < t \<Longrightarrow> (sqrt a / norm2 v < t) = (a / sum_list (map (\<lambda>a. a * a) v) < t * t)"
proof -
  assume t: "0 < t"
  let ?c = "sum_list (map (\<lambda>a. a * a) v)"
  have "sqrt a / norm2 v = sqrt (a / ?c)" by (simp add: norm2_def real_sqrt_divide)
  moreover have "t = sqrt (t * t)" using t by simp
  ultimately have "(sqrt a / norm2 v < t) = (sqrt (a / ?c) < sqrt (t * t))" by simp
  then show ?thesis by (simp only: real_sqrt_less_iff)
qed

lemma first_stop_one: "P (Suc 0) \<Longrightarrow> 0 < n \<Longrightarrow> first_stop P n = 1"
proof -
  assume p: "P (Suc 0)" and n: "0 < n"
  then have "[1..<Suc n] = 1 # [2..<Suc n]"
    by (simp add: upt_conv_Cons eval_nat_numeral del: upt_Suc)
  with p show ?thesis by (simp add: first_stop_def del: upt_Suc)
qed

lemma first_stop_two:
  assumes "\<not> P (Suc 0)" and "P (Suc (Suc 0))" and "2 \<le> n"
  shows "first_stop P n = 2"
proof -
  from assms(3) have "[1..<Suc n] = Suc 0 # Suc (Suc 0) # [3..<Suc n]"
    by (simp add: upt_conv_Cons eval_nat_numeral del: upt_Suc)
  with assms(1,2) show ?thesis by (simp add: first_stop_def del: upt_Suc)
qed

subsection \<open>The loop\<close>

lemma for_range_follows_seq:
  assumes brk: "\<And>j. fst (body (seq j)) = P (Suc j)"
      and cont: "\<And>j. \<not> P (Suc j) \<Longrightarrow> snd (body (seq j)) = seq (Suc j)"
      and stop: "\<And>j. P (Suc j) \<Longrightarrow> proj (snd (body (seq j))) = proj (seq (Suc j))"
      and d: "0 < d"
  shows "proj (fst (for_range body [j..<j + d] (seq j, k0))) =
           proj (seq (case find P [Suc j..<Suc (j + d)] of Some k \<Rightarrow> k | None \<Rightarrow> j + d))
       \<and> snd (for_range body [j..<j + d] (seq j, k0)) =
           Some ((case find P [Suc j..<Suc (j + d)] of Some k \<Rightarrow> k | None \<Rightarrow> j + d) - 1)"
  using d
proof (induction d arbitrary: j k0)
  case 0
  then show ?case by simp
next
  case (Suc d)
  define ks where "ks = [Suc j..<Suc j + d]"
  define ps where "ps = [Suc (Suc j)..<Suc (Suc j + d)]"
  have l1: "[j..<j + Suc d] = j # ks"
    unfolding ks_def by (simp add: upt_conv_Cons del: upt_Suc)
  have l2: "[Suc j..<Suc (j + Suc d)] = Suc j # ps"
    unfolding ps_def by (simp add: upt_conv_Cons del: upt_Suc)
  obtain f s' where b: "body (seq j) = (f, s')" by (cases "body (seq j)")
  show ?case
  proof (cases "P (Suc j)")
    case True
    with brk [of j] b have "f" by simp
    moreover from stop [OF True] b have "proj s' = proj (seq (Suc j))" by simp
    ultimately show ?thesis
      unfolding l1 l2 using True b by simp
  next
    case False
    with brk [of j] b have f: "\<not> f" by simp
    from cont [OF False] b have s': "s' = seq (Suc j)" by simp
    show ?thesis
    proof (cases "d = 0")
      case True
      then have "ks = []" "ps = []" by (simp_all add: ks_def ps_def)
      then show ?thesis unfolding l1 l2 using False b f s' True by simp
    next
      case False
      then have "0 < d" by simp
      from Suc.IH [OF this, of "Suc j" "Some j"]
      have "proj (fst (for_range body ks (seq (Suc j), Some j))) =
              proj (seq (case find P ps of Some k \<Rightarrow> k | None \<Rightarrow> j + Suc d))
          \<and> snd (for_range body ks (seq (Suc j), Some j)) =
              Some ((case find P ps of Some k \<Rightarrow> k | None \<Rightarrow> j + Suc d) - 1)"
        unfolding ks_def ps_def by (simp only: add_Suc add_Suc_right)
      then show ?thesis
        unfolding l1 l2 using \<open>\<not> P (Suc j)\<close> b f s' by simp
    qed
  qed
qed

lemma for_range_first_stop:
  assumes brk: "\<And>j. fst (body (seq j)) = P (Suc j)"
      and cont: "\<And>j. \<not> P (Suc j) \<Longrightarrow> snd (body (seq j)) = seq (Suc j)"
      and stop: "\<And>j. P (Suc j) \<Longrightarrow> proj (snd (body (seq j))) = proj (seq (Suc j))"
      and n: "0 < n"
  shows "proj (fst (for_range body [0..<n] (seq 0, k0))) = proj (seq (first_stop P n))
       \<and> snd (for_range body [0..<n] (seq 0, k0)) = Some (first_stop P n - 1)"
proof -
  have "proj (fst (for_range body [0..<0 + n] (seq 0, k0))) =
           proj (seq (case find P [Suc 0..<Suc (0 + n)] of Some k \<Rightarrow> k | None \<Rightarrow> 0 + n))
       \<and> snd (for_range body [0..<0 + n] (seq 0, k0)) =
           Some ((case find P [Suc 0..<Suc (0 + n)] of Some k \<Rightarrow> k | None \<Rightarrow> 0 + n) - 1)"
    by (rule for_range_follows_seq) (fact brk, erule cont, erule stop, fact n)
  then show ?thesis
    by (simp only: first_stop_def add_0 One_nat_def)
qed

lemma loop_heads_invariant:
  assumes "I s0" and step: "\<And>s. I s \<Longrightarrow> \<not> fst (body s) \<Longrightarrow> I (snd (body s))"
  shows "\<forall>s\<in>set (loop_heads body ks s0). I s"
  using assms(1)
proof (induction ks arbitrary: s0)
  case Nil
  then show ?case by simp
next
  case (Cons k ks)
  obtain f s' where b: "body s0 = (f, s')" by (cases "body s0")
  show ?case
  proof (cases f)
    case True
    with b Cons.prems show ?thesis by simp
  next
    case False
    with step [OF Cons.prems] b have "I s'" by simp
    from Cons.IH [OF this] Cons.prems b False show ?thesis by simp
  qed
qed

lemma for_range_loop_heads:
  "ks \<noteq> [] \<Longrightarrow>
     for_range body ks (s0, k0) =
       (snd (body (last (loop_heads body ks s0))),
        Some (ks ! (length (loop_heads body ks s0) - 1)))"
proof (induction ks arbitrary: s0 k0)
  case Nil
  then show ?case by simp
next
  case (Cons k ks)
  obtain f s' where b: "body s0 = (f, s')" by (cases "body s0")
  show ?case
  proof (cases "f \<or> ks = []")
    case True
    with b show ?thesis by (cases f) auto
  next
    case False
    then have ks: "ks \<noteq> []" and f: "\<not> f" by simp_all
    from ks have "loop_heads body ks s' \<noteq> []" by (cases ks) simp_all
    with Cons.IH [OF ks, of s' "Some k"] b f show ?thesis by simp
  qed
qed

lemma loop_heads_length: "length (loop_heads body ks s0) \<le> length ks"
proof (induction ks arbitrary: s0)
  case Nil
  then show ?case by simp
next
  case (Cons k ks)
  obtain f s' where b: "body s0 = (f, s')" by (cases "body s0")
  with Cons.IH [of s'] show ?case by (cases f) simp_all
qed

lemma for_range_upt_loop_heads:
  assumes "0 < n"
  shows "for_range body [0..<n] (s0, k0) =
       (snd (body (last (loop_heads body [0..<n] s0))),
        Some (length (loop_heads body [0..<n] s0) - 1))"
proof -
  from assms have ne: "[0..<n] \<noteq> []" by simp
  have "length (loop_heads body [0..<n] s0) \<le> n"
    using loop_heads_length [of body "[0..<n]" s0] by simp
  with assms have "length (loop_heads body [0..<n] s0) - 1 < n" by simp
  then have "[0..<n] ! (length (loop_heads body [0..<n] s0) - 1) =
      length (loop_heads body [0..<n] s0) - 1" by simp
  with for_range_loop_heads [OF ne, of body s0 k0] show ?thesis by simp
qed

subsection \<open>Vectors\<close>

lemma vdot_zeros: "vdot row (replicate n 0) = 0"
  unfolding vdot_def
proof (induction row arbitrary: n)
  case Nil
  then show ?case by simp
next
  case (Cons a row)
  then show ?case by (cases n) simp_all
qed

lemma matvec_zeros: "matvec A (replicate n 0) = replicate (length A) 0"
  by (simp add: matvec_def vdot_zeros map_replicate_const)

lemma vsub_zeros: "length b \<le> n \<Longrightarrow> vsub b (replicate n 0) = b"
  by (rule nth_equalityI) (simp_all add: vsub_def)

lemma initial_residual: "length b = length A \<Longrightarrow> vsub b (matvec A (zeros_like b)) = b"
  by (simp add: zeros_like_def matvec_zeros vsub_zeros)

lemma vdot_vadd_smul:
  "length x = length p \<Longrightarrow> vdot row (vadd x (smul a p)) = vdot row x + a * vdot row p"
proof (induction row arbitrary: x p)
  case Nil
  then show ?case by (simp add: vdot_def)
next
  case (Cons c row)
  show ?case
  proof (cases x)
    case Nil
    with Cons.prems show ?thesis by (simp add: vdot_def vadd_def smul_def)
  next
    case x: (Cons x0 xs)
    with Cons.prems obtain p0 ps where p: "p = p0 # ps" by (cases p) auto
    from Cons.prems x p have "length xs = length ps" by simp
    from Cons.IH [OF this, unfolded vdot_def vadd_def smul_def] x p show ?thesis
      by (simp add: vdot_def vadd_def smul_def algebra_simps)
  qed
qed

lemma matvec_vadd_smul:
  "length x = length p \<Longrightarrow>
     matvec A (vadd x (smul a p)) = vadd (matvec A x) (smul a (matvec A p))"
  by (induction A) (simp_all add: matvec_def vdot_vadd_smul, simp_all add: vadd_def smul_def)

lemma length_matvec: "length (matvec A v) = length A"
  by (simp add: matvec_def)

lemma residual_update:
  assumes "length x = length p"
  shows "vsub b (matvec A (vadd x (smul a p))) =
         vsub (vsub b (matvec A x)) (smul a (matvec A p))"
proof -
  have "vsub b (vadd u (smul a w)) = vsub (vsub b u) (smul a w)" if "length u = length w" for u w
    using that
    by (intro nth_equalityI) (simp_all add: vsub_def vadd_def smul_def)
  from this [of "matvec A x" "matvec A p"] show ?thesis
    by (simp add: matvec_vadd_smul [OF assms] length_matvec)
qed

lemma vdot_self: "vdot v v = sum_list (map (\<lambda>a. a * a) v)"
  by (induction v) (simp_all add: vdot_def)

lemma vdot_sum_nth:
  "length u = length v \<Longrightarrow> vdot u v = (\<Sum>j = 0..<length u. u ! j * v ! j)"
  unfolding vdot_def
  by (subst sum_list_sum_nth) (auto intro: sum.cong)

lemma vdot_take:
  assumes "i \<le> length u" "i \<le> length v"
  shows "vdot (take i u) (take i v) = (\<Sum>j<i. u ! j * v ! j)"
proof -
  have "vdot (take i u) (take i v) = (\<Sum>j = 0..<i. take i u ! j * take i v ! j)"
    using assms by (subst vdot_sum_nth) simp_all
  also have "\<dots> = (\<Sum>j = 0..<i. u ! j * v ! j)"
    by (rule sum.cong) simp_all
  finally show ?thesis by (simp add: lessThan_atLeast0)
qed

lemma vdot_drop:
  assumes "length u = n" "length v = n"
  shows "vdot (drop k u) (drop k v) = (\<Sum>j = k..<n. u ! j * v ! j)"
proof (cases "k \<le> n")
  case True
  have "vdot (drop k u) (drop k v) = (\<Sum>j = 0..<n - k. drop k u ! j * drop k v ! j)"
    using assms by (subst vdot_sum_nth) simp_all
  also have "\<dots> = (\<Sum>j = 0..<n - k. u ! (j + k) * v ! (j + k))"
    using assms True by (intro sum.cong) (simp_all add: add.commute)
  also have "\<dots> = (\<Sum>j = 0 + k..<(n - k) + k. u ! j * v ! j)"
    by (rule sum.shift_bounds_nat_ivl [symmetric])
  finally show ?thesis using True by simp
next
  case False
  with assms show ?thesis by (simp add: vdot_def)
qed

subsection \<open>Jacobi returns the iterate before the one that met the tolerance\<close>

lemma jacobi_two_by_two_first:
  "jacobi_body [[2, 1], [1, 2]] [[1 / 2, 0], [0, 1 / 2]] [[0, 1], [1, 0]] [3, 3] (3 / 10) [0, 0]
     = (False, [3 / 2, 3 / 2])"
  unfolding jacobi_body_def Let_def
  by (subst norm2_ratio_less) (simp_all add: matvec_def vdot_def vsub_def)

lemma jacobi_two_by_two_second:
  "jacobi_body [[2, 1], [1, 2]] [[1 / 2, 0], [0, 1 / 2]] [[0, 1], [1, 0]] [3, 3] (3 / 10)
       [3 / 2, 3 / 2]
     = (True, [3 / 2, 3 / 2])"
  unfolding jacobi_body_def Let_def
  by (subst norm2_ratio_less) (simp_all add: matvec_def vdot_def vsub_def)

lemma jacobi_two_by_two:
  assumes "2 \<le> max_iter"
  shows "jacobi (t0, t1) [[2, 1], [1, 2]] [3, 3] [1, 1] (3 / 10) max_iter
     = Inr \<lparr>sol = [3 / 2, 3 / 2], iterations = 2, elapsed = t1 - t0, rel_error = 1 / 2\<rparr>"
proof -
  from assms have u: "[0..<nat max_iter] = 0 # 1 # [2..<nat max_iter]"
    by (intro upt_two) simp
  have pre: "diags (diagonal [[2, 1], [1, 2]]) = [[2, 0], [0, 2]]"
     "diags (map (\<lambda>d. 1 / d) (diagonal [[2, 1], [1, 2::real]])) = [[1 / 2, 0], [0, 1 / 2]]"
    by (simp_all add: diags_def diagonal_def upt_conv_Cons eval_nat_numeral)
  have e: "norm2 (vsub [3 / 2, 3 / 2] [1, 1]) / norm2 [1, 1] = 1 / 2"
    by (rule norm2_ratio_eq) (simp_all add: vsub_def)
  show ?thesis
    by (simp add: jacobi_def pre msub_def zeros_like_def u jacobi_two_by_two_first
        jacobi_two_by_two_second finish_def e)
qed

text \<open>
  Claim C1. When the Jacobi loop ends because the relative residual of the fresh iterate
  \<open>x_new\<close> is below the tolerance, the claim wants \<open>x_new\<close> returned, with a relative
  residual below the tolerance. The loop leaves through \<open>break\<close> before \<open>x = x_new\<close>:
  for \<open>A = [[2, 1], [1, 2]]\<close>, \<open>b = [3, 3]\<close> and tolerance \<open>3/10\<close> the second iterate
  \<open>[3/4, 3/4]\<close> meets the tolerance, and the solver returns the first one,
  \<open>[3/2, 3/2]\<close>, whose relative residual is not below the tolerance.
\<close>

theorem jacobi_returns_previous_iterate:
  "jacobi (t0, t1) [[2, 1], [1, 2]] [3, 3] [1, 1] (3 / 10) 20000
     = Inr \<lparr>sol = [3 / 2, 3 / 2], iterations = 2, elapsed = t1 - t0, rel_error = 1 / 2\<rparr>
   \<and> \<not> norm2 (vsub (matvec [[2, 1], [1, 2]] [3 / 2, 3 / 2]) [3, 3]) / norm2 [3, 3] < 3 / 10
   \<and> norm2 (vsub (matvec [[2, 1], [1, 2]] [3 / 4, 3 / 4]) [3, 3]) / norm2 [3, 3] < 3 / 10"
proof -
  have r1: "\<not> norm2 (vsub (matvec [[2, 1], [1, 2]] [3 / 2, 3 / 2]) [3, 3]) / norm2 [3, 3]
      < 3 / 10"
    by (subst norm2_ratio_less) (simp_all add: matvec_def vdot_def vsub_def)
  have r2: "norm2 (vsub (matvec [[2, 1], [1, 2]] [3 / 4, 3 / 4]) [3, 3]) / norm2 [3, 3] < 3 / 10"
    by (subst norm2_ratio_less) (simp_all add: matvec_def vdot_def vsub_def)
  have "(2::int) \<le> 20000" by simp
  from jacobi_two_by_two [OF this] r1 r2 show ?thesis by blast
qed

subsection \<open>No iteration: the loop variable is unbound\<close>

text \<open>
  Claim C2. With \<open>max_iter = 0\<close> the claim wants every method to return the zero vector
  and a count of zero updates. The range is empty, \<open>k\<close> is never bound, and
  \<open>return x, k + 1, ...\<close> raises \<open>UnboundLocalError\<close> in each of the four methods.
\<close>

theorem max_iter_zero_raises:
  "jacobi clk A b x_exact tol 0 = Inl UnboundLocalError
   \<and> gauss_seidel clk A b x_exact tol 0 = Inl UnboundLocalError
   \<and> gradient clk A b x_exact tol 0 = Inl UnboundLocalError
   \<and> conjugate_gradient clk A b x_exact tol 0 = Inl UnboundLocalError"
  by (simp add: jacobi_def gauss_seidel_def gradient_def conjugate_gradient_def finish_def
      Let_def)

subsection \<open>Jacobi on a diagonal matrix\<close>

lemma jacobi_diagonal:
  assumes "1 \<le> max_iter"
  shows "jacobi (t0, t1) [[2, 0, 0], [0, 3, 0], [0, 0, 4]] [2, 3, 4] [1, 1, 1] (1 / 1000000)
       max_iter
     = Inr \<lparr>sol = [0, 0, 0], iterations = 1, elapsed = t1 - t0, rel_error = 1\<rparr>"
proof -
  from assms have u: "[0..<nat max_iter] = 0 # [1..<nat max_iter]"
    by (intro upt_one) simp
  show ?thesis
    by (simp add: jacobi_def jacobi_body_def u zeros_like_def diagonal_def diags_def msub_def
        matvec_def vdot_def vsub_def norm2_def finish_def Let_def upt_conv_Cons
        eval_nat_numeral)
qed

text \<open>
  Claim C3. For \<open>A = diag(2, 3, 4)\<close>, \<open>b = [2, 3, 4]\<close>, \<open>x_exact = [1, 1, 1]\<close> and
  tolerance \<open>1e-6\<close> the claim wants one iteration and a relative error near zero. The
  count is one, but the vector returned is the initial guess, not the iterate
  \<open>[1, 1, 1]\<close> that met the tolerance, and its relative error is one.
\<close>

theorem jacobi_diagonal_example:
  "jacobi (t0, t1) [[2, 0, 0], [0, 3, 0], [0, 0, 4]] [2, 3, 4] [1, 1, 1] (1 / 1000000) 20000
     = Inr \<lparr>sol = [0, 0, 0], iterations = 1, elapsed = t1 - t0, rel_error = 1\<rparr>"
proof -
  have "(1::int) \<le> 20000" by simp
  from jacobi_diagonal [OF this] show ?thesis .
qed

subsection \<open>Conjugate gradient and gradient follow the recurrences\<close>

lemma cg_body_seq:
  "fst (cg_body A b tol (cg_seq A b j)) = cg_stops A b tol (Suc j)"
  "\<not> cg_stops A b tol (Suc j) \<Longrightarrow> snd (cg_body A b tol (cg_seq A b j)) = cg_seq A b (Suc j)"
  "fst (snd (cg_body A b tol (cg_seq A b j))) = fst (cg_seq A b (Suc j))"
  by (auto simp: cg_body_def cg_stops_def Let_def split: prod.splits)

text \<open>
  Claim C4. For conforming shapes and at least one iteration, \<open>conjugate_gradient\<close>
  computes the recurrence of the specification: its variables before the loop are
  \<open>x = 0\<close>, \<open>r_0 = b\<close>, \<open>p_0 = r_0\<close>, \<open>rsold = r_0\<cdot>r_0\<close>; an iteration that starts
  from the \<open>j\<close>-th term of the recurrence leaves the loop exactly when
  \<open>\<surd>rsnew/\<parallel>b\<parallel> < tol\<close> holds for the next term and otherwise ends in the next term
  (with \<open>p = r + (rsnew/rsold)\<cdot>p\<close> and \<open>rsold = rsnew\<close>); and the solver returns the \<open>x\<close>
  of the term at which the test first holds (or of the last term allowed), with that
  index as the iteration count.
\<close>

theorem conjugate_gradient_recurrence:
  assumes "conforming A b x_exact" and "0 < max_iter"
  shows "conjugate_gradient clk A b x_exact tol max_iter =
           finish clk (fst (cg_seq A b (first_stop (cg_stops A b tol) (nat max_iter)))) x_exact
             (Some (first_stop (cg_stops A b tol) (nat max_iter) - 1))
       \<and> (zeros_like b, vsub b (matvec A (zeros_like b)), vsub b (matvec A (zeros_like b)),
           vdot (vsub b (matvec A (zeros_like b))) (vsub b (matvec A (zeros_like b))))
           = cg_seq A b 0
       \<and> fst (cg_body A b tol (cg_seq A b j)) = cg_stops A b tol (Suc j)
       \<and> (\<not> cg_stops A b tol (Suc j) \<longrightarrow>
            snd (cg_body A b tol (cg_seq A b j)) = cg_seq A b (Suc j))"
proof -
  from assms have len: "length b = length A" by (simp add: conforming_def)
  from assms have n: "0 < nat max_iter" by simp
  have init: "(zeros_like b, vsub b (matvec A (zeros_like b)), vsub b (matvec A (zeros_like b)),
       vdot (vsub b (matvec A (zeros_like b))) (vsub b (matvec A (zeros_like b)))) = cg_seq A b 0"
    by (simp add: initial_residual [OF len]) (simp add: zeros_like_def)
  have "fst (fst (for_range (cg_body A b tol) [0..<nat max_iter] (cg_seq A b 0, None))) =
          fst (cg_seq A b (first_stop (cg_stops A b tol) (nat max_iter)))
       \<and> snd (for_range (cg_body A b tol) [0..<nat max_iter] (cg_seq A b 0, None)) =
          Some (first_stop (cg_stops A b tol) (nat max_iter) - 1)"
    by (rule for_range_first_stop) (rule cg_body_seq, erule cg_body_seq, rule cg_body_seq, fact n)
  then have "conjugate_gradient clk A b x_exact tol max_iter =
           finish clk (fst (cg_seq A b (first_stop (cg_stops A b tol) (nat max_iter)))) x_exact
             (Some (first_stop (cg_stops A b tol) (nat max_iter) - 1))"
    unfolding conjugate_gradient_def Let_def init
    by (auto split: prod.splits)
  with init cg_body_seq(1) [of A b tol j] cg_body_seq(2) [of A b tol j] show ?thesis
    by blast
qed

theorem conjugate_gradient_recurrence_witness:
  "conforming [[1, 0, 0, 0, 0], [0, 1, 0, 0, 0], [0, 0, 1, 0, 0], [0, 0, 0, 1, 0], [0, 0, 0, 0, 1]]
     [1, 1, 1, 1, 1] [1, 1, 1, 1, 1]
   \<and> (0::int) < 20000
   \<and> conjugate_gradient (0, 1)
       [[1, 0, 0, 0, 0], [0, 1, 0, 0, 0], [0, 0, 1, 0, 0], [0, 0, 0, 1, 0], [0, 0, 0, 0, 1]]
       [1, 1, 1, 1, 1] [1, 1, 1, 1, 1] (1 / 1000000) 20000
     = Inr \<lparr>sol = [1, 1, 1, 1, 1], iterations = 1, elapsed = 1, rel_error = 0\<rparr>"
proof -
  let ?A = "[[1, 0, 0, 0, 0], [0, 1, 0, 0, 0], [0, 0, 1, 0, 0], [0, 0, 0, 1, 0], [0, 0, 0, 0, 1::real]]"
  let ?b = "[1, 1, 1, 1, 1::real]"
  have c: "conforming ?A ?b ?b" by (simp add: conforming_def)
  have m: "(0::int) < 20000" by simp
  have s1: "cg_seq ?A ?b (Suc 0) = ([1, 1, 1, 1, 1], [0, 0, 0, 0, 0], [0, 0, 0, 0, 0], 0)"
    by (simp add: Let_def matvec_def vdot_def vadd_def vsub_def smul_def)
  have "cg_stops ?A ?b (1 / 1000000) (Suc 0)"
    unfolding cg_stops_def s1 by simp
  then have f: "first_stop (cg_stops ?A ?b (1 / 1000000)) (nat 20000) = 1"
    by (rule first_stop_one) simp
  have "conjugate_gradient (0, 1) ?A ?b ?b (1 / 1000000) 20000
     = Inr \<lparr>sol = [1, 1, 1, 1, 1], iterations = 1, elapsed = 1, rel_error = 0\<rparr>"
    by (subst conjugate_gradient_recurrence [OF c m, THEN conjunct1], unfold f One_nat_def s1)
       (simp add: finish_def vsub_def norm2_def)
  with c m show ?thesis by blast
qed




subsection \<open>The Gauss-Seidel sweep\<close>

lemma length_gs_sweep: "length (gs_sweep A b x_old is x) = length x"
  by (induction "is" arbitrary: x) simp_all

lemma gs_sweep_untouched: "j \<notin> set is \<Longrightarrow> gs_sweep A b x_old is x ! j = x ! j"
  by (induction "is" arbitrary: x) auto

lemma gs_sweep_append:
  "gs_sweep A b x_old (is @ js) x = gs_sweep A b x_old js (gs_sweep A b x_old is x)"
  by (induction "is" arbitrary: x) simp_all

lemma take_gs_sweep:
  assumes "\<forall>k\<in>set is. i \<le> k"
  shows "take i (gs_sweep A b x_old is x) = take i x"
proof (rule nth_equalityI)
  show "length (take i (gs_sweep A b x_old is x)) = length (take i x)"
    by (simp add: length_gs_sweep)
next
  fix j assume "j < length (take i (gs_sweep A b x_old is x))"
  then have j: "j < i" by simp
  with assms have "j \<notin> set is" by auto
  with j show "take i (gs_sweep A b x_old is x) ! j = take i x ! j"
    by (simp add: gs_sweep_untouched)
qed

lemma gs_sweep_component:
  assumes rows: "list_all (\<lambda>row. length row = length A) A"
    and x: "length x = length A" and i: "i < length A"
  shows "gs_sweep A b x [0..<length A] x ! i =
     (b ! i - (\<Sum>j<i. A ! i ! j * gs_sweep A b x [0..<length A] x ! j)
            - (\<Sum>j = i + 1..<length A. A ! i ! j * x ! j)) / A ! i ! i"
proof -
  let ?n = "length A"
  let ?y = "gs_sweep A b x [0..<i] x"
  let ?v = "(b ! i - vdot (take i (A ! i)) (take i ?y)
                   - vdot (drop (i + 1) (A ! i)) (drop (i + 1) x)) / A ! i ! i"
  let ?z = "gs_sweep A b x [0..<?n] x"
  from rows i have row: "length (A ! i) = ?n" by (simp add: list_all_length)
  have split: "[0..<?n] = [0..<i] @ i # [Suc i..<?n]"
    using i by (metis le_add1 less_imp_add_positive upt_add_eq_append upt_conv_Cons zero_le plus_nat.add_0)
  have z: "?z = gs_sweep A b x [Suc i..<?n] (?y[i := ?v])"
    by (subst split) (simp add: gs_sweep_append)
  have leny: "length ?y = ?n" by (simp add: length_gs_sweep x)
  have zi: "?z ! i = ?v"
    by (subst z) (simp add: gs_sweep_untouched leny i)
  have "take i ?z = take i (?y[i := ?v])"
    by (subst z) (rule take_gs_sweep, simp)
  then have tz: "take i ?z = take i ?y" by simp
  have "vdot (take i (A ! i)) (take i ?y) = (\<Sum>j<i. A ! i ! j * ?z ! j)"
    using i row by (subst tz [symmetric]) (rule vdot_take, simp_all add: length_gs_sweep x)
  moreover have "vdot (drop (i + 1) (A ! i)) (drop (i + 1) x) = (\<Sum>j = i + 1..<?n. A ! i ! j * x ! j)"
    using row x by (rule vdot_drop)
  ultimately show ?thesis using zi by simp
qed

lemma length_gs_spec_prefix: "length (gs_spec_prefix A b x_old i) = i"
  by (induction i) (simp_all add: Let_def)

lemma take_gs_spec_prefix:
  "i \<le> m \<Longrightarrow> take i (gs_spec_prefix A b x_old m) = gs_spec_prefix A b x_old i"
proof (induction m)
  case 0
  then show ?case by simp
next
  case (Suc m)
  show ?case
  proof (cases "i = Suc m")
    case True
    then show ?thesis by (simp add: length_gs_spec_prefix Let_def)
  next
    case False
    with Suc.prems have "i \<le> m" by simp
    with Suc.IH show ?thesis by (simp add: length_gs_spec_prefix Let_def)
  qed
qed

lemma gs_spec_prefix_component:
  assumes "i < m"
  shows "gs_spec_prefix A b x_old m ! i =
     (b ! i - (\<Sum>j<i. A ! i ! j * gs_spec_prefix A b x_old m ! j)
            - (\<Sum>j = i + 1..<length A. A ! i ! j * x_old ! j)) / A ! i ! i"
proof -
  let ?w = "gs_spec_prefix A b x_old m"
  from assms have le: "Suc i \<le> m" "i \<le> m" by simp_all
  have "?w ! i = take (Suc i) ?w ! i" by simp
  also have "\<dots> = gs_spec_prefix A b x_old (Suc i) ! i"
    by (simp only: take_gs_spec_prefix [OF le(1)])
  also have "\<dots> = (b ! i - (\<Sum>j<i. A ! i ! j * gs_spec_prefix A b x_old i ! j)
            - (\<Sum>j = i + 1..<length A. A ! i ! j * x_old ! j)) / A ! i ! i"
    by (simp add: Let_def nth_append length_gs_spec_prefix)
  also have "(\<Sum>j<i. A ! i ! j * gs_spec_prefix A b x_old i ! j) = (\<Sum>j<i. A ! i ! j * ?w ! j)"
  proof (rule sum.cong)
    fix j assume "j \<in> {..<i}"
    then have j: "j < i" by simp
    have "gs_spec_prefix A b x_old i ! j = take i ?w ! j"
      by (simp only: take_gs_spec_prefix [OF le(2)])
    with j show "A ! i ! j * gs_spec_prefix A b x_old i ! j = A ! i ! j * ?w ! j" by simp
  qed simp
  finally show ?thesis .
qed

lemma gs_sweep_spec:
  assumes rows: "list_all (\<lambda>row. length row = length A) A" and x: "length x = length A"
  shows "gs_sweep A b x [0..<length A] x = gs_spec_sweep A b x"
proof (rule nth_equalityI)
  show "length (gs_sweep A b x [0..<length A] x) = length (gs_spec_sweep A b x)"
    by (simp add: length_gs_sweep gs_spec_sweep_def length_gs_spec_prefix x)
next
  fix i assume "i < length (gs_sweep A b x [0..<length A] x)"
  then have "i < length A" by (simp add: length_gs_sweep x)
  then show "gs_sweep A b x [0..<length A] x ! i = gs_spec_sweep A b x ! i"
  proof (induction i rule: less_induct)
    case (less i)
    have "(\<Sum>j<i. A ! i ! j * gs_sweep A b x [0..<length A] x ! j) =
          (\<Sum>j<i. A ! i ! j * gs_spec_sweep A b x ! j)"
    proof (rule sum.cong)
      fix j assume "j \<in> {..<i}"
      then have "j < i" by simp
      with less.prems less.IH [of j]
      show "A ! i ! j * gs_sweep A b x [0..<length A] x ! j = A ! i ! j * gs_spec_sweep A b x ! j"
        by simp
    qed simp
    with gs_sweep_component [OF rows x less.prems, of b]
      gs_spec_prefix_component [OF less.prems, of A b x]
    show ?case by (simp add: gs_spec_sweep_def)
  qed
qed

lemma length_gs_seq: "length b = length A \<Longrightarrow> length (gs_seq A b k) = length A"
  by (cases k) (simp_all add: gs_spec_sweep_def length_gs_spec_prefix)

lemma gs_body_seq:
  assumes "conforming A b x_exact"
  shows "fst (gs_body (toarray A) b tol (gs_seq A b j)) = gs_stops A b tol (Suc j)"
    and "snd (gs_body (toarray A) b tol (gs_seq A b j)) = gs_seq A b (Suc j)"
proof -
  from assms have rows: "list_all (\<lambda>row. length row = length A) A"
    and len: "length b = length A" by (simp_all add: conforming_def)
  note sw = gs_sweep_spec [OF rows length_gs_seq [OF len, of j]]
  show "fst (gs_body (toarray A) b tol (gs_seq A b j)) = gs_stops A b tol (Suc j)"
    by (simp add: gs_body_def toarray_def Let_def sw gs_stops_def)
  show "snd (gs_body (toarray A) b tol (gs_seq A b j)) = gs_seq A b (Suc j)"
    by (simp add: gs_body_def toarray_def Let_def sw)
qed

text \<open>
  Claim C6. On conforming shapes and with at least one iteration, \<open>gauss_seidel\<close> computes
  the sweeps of the specification. An iteration that starts from the result of the
  \<open>j\<close>-th sweep runs the inner loop over the indices in increasing order and leaves the
  result of the next sweep, whose component \<open>i\<close> is
  \<open>(b[i] - \<Sum>_{l<i} A[i,l]\<cdot>x[l] - \<Sum>_{l>i} A[i,l]\<cdot>x_old[l]) / A[i,i]\<close>, with the components
  of this sweep for \<open>l < i\<close> and those of the previous sweep for \<open>l > i\<close>; the iteration
  makes one test, \<open>\<parallel>A\<cdot>x - b\<parallel>/\<parallel>b\<parallel> < tol\<close> on the result of the whole sweep, and leaves the
  loop exactly when it holds; and the solver returns the result of the sweep at which the
  test first holds (or of the last sweep allowed), with the number of sweeps as the
  iteration count.
\<close>

theorem gauss_seidel_sweep:
  assumes "conforming A b x_exact" and "0 < max_iter"
  shows "gauss_seidel clk A b x_exact tol max_iter =
           finish clk (gs_seq A b (first_stop (gs_stops A b tol) (nat max_iter))) x_exact
             (Some (first_stop (gs_stops A b tol) (nat max_iter) - 1))
       \<and> zeros_like b = gs_seq A b 0
       \<and> gs_body (toarray A) b tol (gs_seq A b j) = (gs_stops A b tol (Suc j), gs_seq A b (Suc j))
       \<and> gs_seq A b (Suc j) = gs_sweep A b (gs_seq A b j) [0..<length A] (gs_seq A b j)
       \<and> (i < length A \<longrightarrow>
            gs_seq A b (Suc j) ! i =
              (b ! i - (\<Sum>l<i. A ! i ! l * gs_seq A b (Suc j) ! l)
                     - (\<Sum>l = i + 1..<length A. A ! i ! l * gs_seq A b j ! l)) / A ! i ! i)"
proof -
  from assms have rows: "list_all (\<lambda>row. length row = length A) A"
    and len: "length b = length A" by (simp_all add: conforming_def)
  from assms have n: "0 < nat max_iter" by simp
  have init: "zeros_like b = gs_seq A b 0" by (simp add: zeros_like_def)
  have "id (fst (for_range (gs_body (toarray A) b tol) [0..<nat max_iter] (gs_seq A b 0, None))) =
          id (gs_seq A b (first_stop (gs_stops A b tol) (nat max_iter)))
       \<and> snd (for_range (gs_body (toarray A) b tol) [0..<nat max_iter] (gs_seq A b 0, None)) =
          Some (first_stop (gs_stops A b tol) (nat max_iter) - 1)"
    by (rule for_range_first_stop)
       (rule gs_body_seq [OF assms(1)], rule gs_body_seq [OF assms(1)],
        simp add: gs_body_seq [OF assms(1)], fact n)
  then have solver: "gauss_seidel clk A b x_exact tol max_iter =
           finish clk (gs_seq A b (first_stop (gs_stops A b tol) (nat max_iter))) x_exact
             (Some (first_stop (gs_stops A b tol) (nat max_iter) - 1))"
    unfolding gauss_seidel_def Let_def init
    by (auto split: prod.splits)
  have body: "gs_body (toarray A) b tol (gs_seq A b j) =
      (gs_stops A b tol (Suc j), gs_seq A b (Suc j))"
    using gs_body_seq [OF assms(1), of tol j] by (simp add: prod_eq_iff)
  have sweep: "gs_seq A b (Suc j) = gs_sweep A b (gs_seq A b j) [0..<length A] (gs_seq A b j)"
    by (simp add: gs_sweep_spec [OF rows length_gs_seq [OF len]])
  have comp: "gs_seq A b (Suc j) ! i =
              (b ! i - (\<Sum>l<i. A ! i ! l * gs_seq A b (Suc j) ! l)
                     - (\<Sum>l = i + 1..<length A. A ! i ! l * gs_seq A b j ! l)) / A ! i ! i"
    if "i < length A"
    using gs_spec_prefix_component [OF that, of A b "gs_seq A b j"]
    by (simp add: gs_spec_sweep_def)
  from solver init body sweep comp show ?thesis by blast
qed

theorem gauss_seidel_sweep_witness:
  "conforming [[2, 1], [1, 2]] [3, 3] [1, 1]
   \<and> (0::int) < 20000
   \<and> gauss_seidel (0, 1) [[2, 1], [1, 2]] [3, 3] [1, 1] (1 / 10) 20000
       = Inr \<lparr>sol = [9 / 8, 15 / 16], iterations = 2, elapsed = 1,
              rel_error = norm2 (vsub [9 / 8, 15 / 16] [1, 1]) / norm2 [1, 1]\<rparr>
   \<and> gs_sweep [[2, 1], [1, 2]] [3, 3] [3 / 2, 3 / 4] [0..<length [[2, 1], [1, 2::real]]]
        [3 / 2, 3 / 4] = [9 / 8, 15 / 16]"
proof -
  let ?A = "[[2, 1], [1, 2::real]]"
  let ?b = "[3, 3::real]"
  have c: "conforming ?A ?b [1, 1]" by (simp add: conforming_def)
  have m: "(0::int) < 20000" by simp
  note t = gauss_seidel_sweep [OF c m]
  have s1: "gs_seq ?A ?b (Suc 0) = [3 / 2, 3 / 4]"
    by (simp add: gs_spec_sweep_def Let_def eval_nat_numeral lessThan_Suc)
  have s2: "gs_seq ?A ?b (Suc (Suc 0)) = [9 / 8, 15 / 16]"
    unfolding gs_seq.simps(2) [of _ _ "Suc 0"] s1
    by (simp add: gs_spec_sweep_def Let_def eval_nat_numeral lessThan_Suc)
  have n1: "\<not> gs_stops ?A ?b (1 / 10) (Suc 0)"
    unfolding gs_stops_def s1
    by (subst norm2_ratio_less) (simp_all add: matvec_def vdot_def vsub_def)
  have n2: "gs_stops ?A ?b (1 / 10) (Suc (Suc 0))"
    unfolding gs_stops_def s2
    by (subst norm2_ratio_less) (simp_all add: matvec_def vdot_def vsub_def)
  have f: "first_stop (gs_stops ?A ?b (1 / 10)) (nat 20000) = 2"
    using n1 n2 by (rule first_stop_two) simp
  have r: "gauss_seidel (0, 1) ?A ?b [1, 1] (1 / 10) 20000
       = Inr \<lparr>sol = [9 / 8, 15 / 16], iterations = 2, elapsed = 1,
              rel_error = norm2 (vsub [9 / 8, 15 / 16] [1, 1]) / norm2 [1, 1]\<rparr>"
    by (subst t [THEN conjunct1], unfold f numeral_2_eq_2 s2) (simp add: finish_def)
  have "[9 / 8, 15 / 16] = gs_sweep ?A ?b [3 / 2, 3 / 4] [0..<length ?A] [3 / 2, 3 / 4]"
    using t [where j = "Suc 0", THEN conjunct2, THEN conjunct2, THEN conjunct2, THEN conjunct1]
    unfolding s1 s2 .
  then have "gs_sweep ?A ?b [3 / 2, 3 / 4] [0..<length ?A] [3 / 2, 3 / 4] = [9 / 8, 15 / 16]"
    by (rule sym)
  with c m r show ?thesis by blast
qed

subsection \<open>Dispatcher\<close>

lemma sublist_skip: "sublist xs ys \<Longrightarrow> sublist xs (ps @ ys)"
  unfolding sublist_def by (metis append.assoc)

lemma normalize_method_cases:
  "normalize_method ''gs'' = ''gs''"
  "normalize_method ''gauss_seidel'' = ''gauss_seidel''"
  "normalize_method ''Gauss-Seidel'' = ''gauss_seidel''"
  "normalize_method ''GAUSS seidel'' = ''gauss_seidel''"
  "normalize_method ''sor'' = ''sor''"
  by (simp_all add: normalize_method_def lower_def lower_char_def replace_def)

text \<open>
  Claim C7. The dispatcher looks the method up after lowering its case and replacing
  \<open>-\<close> and space by \<open>_\<close>, so two identifiers with one normal form give one result, and
  \<open>gs\<close> and \<open>gauss_seidel\<close> both run Gauss-Seidel: on the same arguments (and the same
  clock readings) the two calls return the same result.
\<close>

theorem dispatcher_alias_equivalence:
  "solve_linear_system ''gs'' clk A b x_exact tol max_iter =
     solve_linear_system ''gauss_seidel'' clk A b x_exact tol max_iter
   \<and> solve_linear_system ''gs'' clk A b x_exact tol max_iter =
     gauss_seidel clk A b x_exact tol max_iter
   \<and> (normalize_method m = normalize_method m' \<longrightarrow>
        solve_linear_system m clk A b x_exact tol max_iter =
        solve_linear_system m' clk A b x_exact tol max_iter)"
  by (simp add: solve_linear_system_def normalize_method_cases method_map_def)

theorem dispatcher_alias_equivalence_witness:
  "normalize_method ''Gauss-Seidel'' = normalize_method ''GAUSS seidel''
   \<and> solve_linear_system ''Gauss-Seidel'' (0, 1) [[2]] [2] [1] (1 / 10) 5 =
     solve_linear_system ''GAUSS seidel'' (0, 1) [[2]] [2] [1] (1 / 10) 5"
  using dispatcher_alias_equivalence [of "(0, 1)" "[[2]]" "[2]" "[1]" "1 / 10" 5
      "''Gauss-Seidel''" "''GAUSS seidel''"]
  by (simp add: normalize_method_cases)

lemma msg_split:
  "invalid_method_message s = ''Metodo '' @ s @ drop 7 (invalid_method_message [])"
  by (simp add: invalid_method_message_def)

lemma sublist_tail:
  "sublist xs (drop 7 (invalid_method_message [])) \<Longrightarrow> sublist xs (invalid_method_message s)"
  by (subst msg_split) (intro sublist_skip)

lemma quoted_names_listed:
  "sublist (CHR 0x27 # ''jacobi'' @ [CHR 0x27]) (invalid_method_message s)"
  "sublist (CHR 0x27 # ''gauss_seidel'' @ [CHR 0x27]) (invalid_method_message s)"
  "sublist (CHR 0x27 # ''gs'' @ [CHR 0x27]) (invalid_method_message s)"
  "sublist (CHR 0x27 # ''gradient'' @ [CHR 0x27]) (invalid_method_message s)"
  "sublist (CHR 0x27 # ''grad'' @ [CHR 0x27]) (invalid_method_message s)"
  "sublist (CHR 0x27 # ''conjugate_gradient'' @ [CHR 0x27]) (invalid_method_message s)"
  "sublist (CHR 0x27 # ''cg'' @ [CHR 0x27]) (invalid_method_message s)"
  by (rule sublist_tail, simp add: invalid_method_message_def sublist_Cons_right prefix_Cons)+

lemma aliases_not_listed:
  "\<not> sublist ''gradiente'' (invalid_method_message ''sor'')"
  "\<not> sublist ''gradiente_coniugato'' (invalid_method_message ''sor'')"
  by (simp_all add: invalid_method_message_def sublist_Cons_right prefix_Cons)

lemma method_map_italian:
  "method_map ''gradiente'' = Some gradient"
  "method_map ''gradiente_coniugato'' = Some conjugate_gradient"
  by (simp_all add: method_map_def)

text \<open>
  Claim C8, as amended. An identifier whose normal form is no key of \<open>method_map\<close> makes
  the dispatcher raise \<open>ValueError\<close>, whatever the other arguments are (no solver runs);
  the message is the fixed text around the normalised identifier, and it lists, in
  quotes, the four method names and the aliases \<open>gs\<close>, \<open>grad\<close> and \<open>cg\<close>. The normalised
  identifier in the message is stated for ASCII identifiers, where \<open>lower\<close> is
  \<open>str.lower()\<close>.
\<close>

theorem invalid_method_rejected:
  assumes "method_map (normalize_method method) = None"
  shows "(\<exists>s. solve_linear_system method clk A b x_exact tol max_iter =
              Inl (ValueError (invalid_method_message s)))
       \<and> (list_all (\<lambda>c. (of_char c :: nat) < 128) method \<longrightarrow>
            solve_linear_system method clk A b x_exact tol max_iter =
              Inl (ValueError (invalid_method_message (normalize_method method))))
       \<and> (\<forall>s. sublist (CHR 0x27 # ''jacobi'' @ [CHR 0x27]) (invalid_method_message s)
             \<and> sublist (CHR 0x27 # ''gauss_seidel'' @ [CHR 0x27]) (invalid_method_message s)
             \<and> sublist (CHR 0x27 # ''gs'' @ [CHR 0x27]) (invalid_method_message s)
             \<and> sublist (CHR 0x27 # ''gradient'' @ [CHR 0x27]) (invalid_method_message s)
             \<and> sublist (CHR 0x27 # ''grad'' @ [CHR 0x27]) (invalid_method_message s)
             \<and> sublist (CHR 0x27 # ''conjugate_gradient'' @ [CHR 0x27])
                 (invalid_method_message s)
             \<and> sublist (CHR 0x27 # ''cg'' @ [CHR 0x27]) (invalid_method_message s))"
proof -
  have e: "solve_linear_system method clk A b x_exact tol max_iter =
           Inl (ValueError (invalid_method_message (normalize_method method)))"
    using assms by (simp add: solve_linear_system_def)
  then have "\<exists>s. solve_linear_system method clk A b x_exact tol max_iter =
              Inl (ValueError (invalid_method_message s))" ..
  with e quoted_names_listed show ?thesis by blast
qed

theorem invalid_method_rejected_witness:
  "method_map (normalize_method ''sor'') = None
   \<and> list_all (\<lambda>c. (of_char c :: nat) < 128) ''sor''
   \<and> solve_linear_system ''sor'' (0, 1) [[2]] [2] [1] (1 / 10) 0 =
       Inl (ValueError (invalid_method_message ''sor''))"
proof -
  have n: "method_map (normalize_method ''sor'') = None"
    by (simp add: normalize_method_cases method_map_def)
  have a: "list_all (\<lambda>c. (of_char c :: nat) < 128) ''sor''" by simp
  from invalid_method_rejected [OF n, of "(0, 1)" "[[2]]" "[2]" "[1]" "1 / 10" 0] a
  have "solve_linear_system ''sor'' (0, 1) [[2]] [2] [1] (1 / 10) 0 =
       Inl (ValueError (invalid_method_message (normalize_method ''sor'')))"
    by blast
  with n a show ?thesis by (simp add: normalize_method_cases)
qed

text \<open>
  Claim C8, as stated, asks for a message that lists the valid names. \<open>gradiente\<close> and
  \<open>gradiente_coniugato\<close> are keys of \<open>method_map\<close>, and the message raised for the
  unrecognised identifier \<open>sor\<close> contains neither.
\<close>

theorem invalid_method_message_omits_aliases:
  "method_map (normalize_method ''sor'') = None
   \<and> solve_linear_system ''sor'' (0, 1) [[2]] [2] [1] (1 / 10) 5 =
       Inl (ValueError (invalid_method_message ''sor''))
   \<and> method_map (normalize_method ''gradiente'') = Some gradient
   \<and> method_map (normalize_method ''gradiente_coniugato'') = Some conjugate_gradient
   \<and> \<not> sublist ''gradiente'' (invalid_method_message ''sor'')
   \<and> \<not> sublist ''gradiente_coniugato'' (invalid_method_message ''sor'')"
proof -
  have n: "normalize_method ''gradiente'' = ''gradiente''"
    "normalize_method ''gradiente_coniugato'' = ''gradiente_coniugato''"
    by (simp_all add: normalize_method_def lower_def lower_char_def replace_def)
  have "method_map (normalize_method ''sor'') = None"
    by (simp add: normalize_method_cases method_map_def)
  moreover from this
  have "solve_linear_system ''sor'' (0, 1) [[2]] [2] [1] (1 / 10) 5 =
       Inl (ValueError (invalid_method_message ''sor''))"
    by (simp add: solve_linear_system_def normalize_method_cases)
  ultimately show ?thesis
    using method_map_italian aliases_not_listed by (simp add: n)
qed

subsection \<open>The residual invariant\<close>

lemma gradient_keeps_residual:
  assumes len: "length b = length A"
    and inv: "case s of (x, r, p) \<Rightarrow>
        length x = length A \<and> length p = length A \<and> r = vsub b (matvec A x)"
    and cont: "\<not> fst (gradient_body A b tol s)"
  shows "case snd (gradient_body A b tol s) of (x, r, p) \<Rightarrow>
        length x = length A \<and> length p = length A \<and> r = vsub b (matvec A x)"
proof -
  obtain x r p where s: "s = (x, r, p)" by (cases s)
  with inv have i: "length x = length A" "length p = length A" "r = vsub b (matvec A x)"
    by simp_all
  then have xp: "length x = length p" by simp
  show ?thesis
    using cont unfolding s gradient_body_def Let_def
    by (simp add: residual_update [OF xp] i(3) [symmetric] split: if_splits)
       (simp add: vadd_def vsub_def smul_def i length_matvec len)
qed

lemma gradient_test_residual:
  assumes "length x = length p" and "r = vsub b (matvec A x)"
  shows "fst (gradient_body A b tol (x, r, p)) \<longleftrightarrow>
     norm2 (vsub b (matvec A (fst (snd (gradient_body A b tol (x, r, p)))))) / norm2 b < tol"
  unfolding gradient_body_def Let_def
  by (simp add: residual_update [OF assms(1)] assms(2) [symmetric])

lemma cg_keeps_residual:
  assumes len: "length b = length A"
    and inv: "case s of (x, r, p, rsold) \<Rightarrow>
        length x = length A \<and> length p = length A \<and> r = vsub b (matvec A x)"
    and cont: "\<not> fst (cg_body A b tol s)"
  shows "case snd (cg_body A b tol s) of (x, r, p, rsold) \<Rightarrow>
        length x = length A \<and> length p = length A \<and> r = vsub b (matvec A x)"
proof -
  obtain x r p rsold where s: "s = (x, r, p, rsold)" by (cases s)
  with inv have i: "length x = length A" "length p = length A" "r = vsub b (matvec A x)"
    by simp_all
  then have xp: "length x = length p" by simp
  show ?thesis
    using cont unfolding s cg_body_def Let_def
    by (simp add: residual_update [OF xp] i(3) [symmetric] split: if_splits)
       (simp add: vadd_def vsub_def smul_def i length_matvec len)
qed

lemma cg_test_residual:
  assumes "length x = length p" and "r = vsub b (matvec A x)"
  shows "fst (cg_body A b tol (x, r, p, rsold)) \<longleftrightarrow>
     norm2 (vsub b (matvec A (fst (snd (cg_body A b tol (x, r, p, rsold)))))) / norm2 b < tol"
  unfolding cg_body_def Let_def
  by (simp add: residual_update [OF assms(1)] assms(2) [symmetric] vdot_self norm2_def)

lemma gradient_by_loop_heads:
  assumes "0 < max_iter"
  shows "gradient clk A b x_exact tol max_iter =
     finish clk
       (fst (snd (gradient_body A b tol
          (last (loop_heads (gradient_body A b tol) [0..<nat max_iter]
             (zeros_like b, vsub b (matvec A (zeros_like b)),
              vsub b (matvec A (zeros_like b))))))))
       x_exact
       (Some (length (loop_heads (gradient_body A b tol) [0..<nat max_iter]
             (zeros_like b, vsub b (matvec A (zeros_like b)),
              vsub b (matvec A (zeros_like b)))) - 1))"
proof -
  from assms have n: "0 < nat max_iter" by simp
  show ?thesis
    unfolding gradient_def Let_def for_range_upt_loop_heads [OF n]
    by (simp split: prod.splits)
qed

lemma conjugate_gradient_by_loop_heads:
  assumes "0 < max_iter"
  shows "conjugate_gradient clk A b x_exact tol max_iter =
     finish clk
       (fst (snd (cg_body A b tol
          (last (loop_heads (cg_body A b tol) [0..<nat max_iter]
             (zeros_like b, vsub b (matvec A (zeros_like b)),
              vsub b (matvec A (zeros_like b)),
              vdot (vsub b (matvec A (zeros_like b))) (vsub b (matvec A (zeros_like b)))))))))
       x_exact
       (Some (length (loop_heads (cg_body A b tol) [0..<nat max_iter]
             (zeros_like b, vsub b (matvec A (zeros_like b)),
              vsub b (matvec A (zeros_like b)),
              vdot (vsub b (matvec A (zeros_like b))) (vsub b (matvec A (zeros_like b)))))
          - 1))"
proof -
  from assms have n: "0 < nat max_iter" by simp
  show ?thesis
    unfolding conjugate_gradient_def Let_def for_range_upt_loop_heads [OF n]
    by (simp split: prod.splits)
qed

text \<open>
  Claim C10. On conforming shapes, at the start of every iteration that \<open>gradient\<close> or
  \<open>conjugate_gradient\<close> runs, the residual variable is the true residual, \<open>r = b - A\<cdot>x\<close>;
  and the test that ends the iteration is the test of the true residual of the updated
  iterate: the body leaves the loop exactly when \<open>\<parallel>b - A\<cdot>x\<parallel>/\<parallel>b\<parallel> < tol\<close> for the \<open>x\<close> it
  has just updated. These iterations are the solvers' own: with at least one iteration,
  each solver returns the \<open>x\<close> that its body leaves from the last of them, and their number
  as the iteration count.
\<close>

theorem residual_invariant:
  assumes "conforming A b x_exact"
  shows "(\<forall>(x, r, p) \<in> set (loop_heads (gradient_body A b tol) [0..<nat max_iter]
             (zeros_like b, vsub b (matvec A (zeros_like b)), vsub b (matvec A (zeros_like b)))).
           r = vsub b (matvec A x)
         \<and> (fst (gradient_body A b tol (x, r, p)) \<longleftrightarrow>
              norm2 (vsub b (matvec A (fst (snd (gradient_body A b tol (x, r, p)))))) / norm2 b
                < tol))
       \<and> (\<forall>(x, r, p, rsold) \<in> set (loop_heads (cg_body A b tol) [0..<nat max_iter]
             (zeros_like b, vsub b (matvec A (zeros_like b)), vsub b (matvec A (zeros_like b)),
              vdot (vsub b (matvec A (zeros_like b))) (vsub b (matvec A (zeros_like b))))).
           r = vsub b (matvec A x)
         \<and> (fst (cg_body A b tol (x, r, p, rsold)) \<longleftrightarrow>
              norm2 (vsub b (matvec A (fst (snd (cg_body A b tol (x, r, p, rsold)))))) / norm2 b
                < tol))
       \<and> (0 < max_iter \<longrightarrow>
            gradient clk A b x_exact tol max_iter =
              finish clk
                (fst (snd (gradient_body A b tol
                   (last (loop_heads (gradient_body A b tol) [0..<nat max_iter]
                      (zeros_like b, vsub b (matvec A (zeros_like b)),
                       vsub b (matvec A (zeros_like b))))))))
                x_exact
                (Some (length (loop_heads (gradient_body A b tol) [0..<nat max_iter]
                      (zeros_like b, vsub b (matvec A (zeros_like b)),
                       vsub b (matvec A (zeros_like b)))) - 1))
          \<and> conjugate_gradient clk A b x_exact tol max_iter =
              finish clk
                (fst (snd (cg_body A b tol
                   (last (loop_heads (cg_body A b tol) [0..<nat max_iter]
                      (zeros_like b, vsub b (matvec A (zeros_like b)),
                       vsub b (matvec A (zeros_like b)),
                       vdot (vsub b (matvec A (zeros_like b)))
                         (vsub b (matvec A (zeros_like b)))))))))
                x_exact
                (Some (length (loop_heads (cg_body A b tol) [0..<nat max_iter]
                      (zeros_like b, vsub b (matvec A (zeros_like b)),
                       vsub b (matvec A (zeros_like b)),
                       vdot (vsub b (matvec A (zeros_like b)))
                         (vsub b (matvec A (zeros_like b))))) - 1)))"
proof -
  from assms have len: "length b = length A" by (simp add: conforming_def)
  let ?r0 = "vsub b (matvec A (zeros_like b))"
  have init: "length (zeros_like b) = length A" "length ?r0 = length A"
    by (simp_all add: zeros_like_def vsub_def length_matvec len)
  have g: "\<forall>s \<in> set (loop_heads (gradient_body A b tol) [0..<nat max_iter] (zeros_like b, ?r0, ?r0)).
      case s of (x, r, p) \<Rightarrow>
        length x = length A \<and> length p = length A \<and> r = vsub b (matvec A x)"
    by (rule loop_heads_invariant) (simp add: init, rule gradient_keeps_residual [OF len])
  have c: "\<forall>s \<in> set (loop_heads (cg_body A b tol) [0..<nat max_iter]
        (zeros_like b, ?r0, ?r0, vdot ?r0 ?r0)).
      case s of (x, r, p, rsold) \<Rightarrow>
        length x = length A \<and> length p = length A \<and> r = vsub b (matvec A x)"
    by (rule loop_heads_invariant) (simp add: init, rule cg_keeps_residual [OF len])
  show ?thesis
  proof (intro conjI ballI)
    fix s assume "s \<in> set (loop_heads (gradient_body A b tol) [0..<nat max_iter]
        (zeros_like b, ?r0, ?r0))"
    with g show "case s of (x, r, p) \<Rightarrow> r = vsub b (matvec A x)
         \<and> (fst (gradient_body A b tol (x, r, p)) \<longleftrightarrow>
              norm2 (vsub b (matvec A (fst (snd (gradient_body A b tol (x, r, p)))))) / norm2 b
                < tol)"
      using gradient_test_residual by (cases s) auto
  next
    fix s assume "s \<in> set (loop_heads (cg_body A b tol) [0..<nat max_iter]
        (zeros_like b, ?r0, ?r0, vdot ?r0 ?r0))"
    with c show "case s of (x, r, p, rsold) \<Rightarrow> r = vsub b (matvec A x)
         \<and> (fst (cg_body A b tol (x, r, p, rsold)) \<longleftrightarrow>
              norm2 (vsub b (matvec A (fst (snd (cg_body A b tol (x, r, p, rsold)))))) / norm2 b
                < tol)"
      using cg_test_residual by (cases s) auto
  next
    show "0 < max_iter \<longrightarrow>
            gradient clk A b x_exact tol max_iter =
              finish clk
                (fst (snd (gradient_body A b tol
                   (last (loop_heads (gradient_body A b tol) [0..<nat max_iter]
                      (zeros_like b, ?r0, ?r0))))))
                x_exact
                (Some (length (loop_heads (gradient_body A b tol) [0..<nat max_iter]
                      (zeros_like b, ?r0, ?r0)) - 1))
          \<and> conjugate_gradient clk A b x_exact tol max_iter =
              finish clk
                (fst (snd (cg_body A b tol
                   (last (loop_heads (cg_body A b tol) [0..<nat max_iter]
                      (zeros_like b, ?r0, ?r0, vdot ?r0 ?r0))))))
                x_exact
                (Some (length (loop_heads (cg_body A b tol) [0..<nat max_iter]
                      (zeros_like b, ?r0, ?r0, vdot ?r0 ?r0)) - 1))"
      using gradient_by_loop_heads [of max_iter clk A b x_exact tol]
        conjugate_gradient_by_loop_heads [of max_iter clk A b x_exact tol]
      by blast
  qed
qed

theorem residual_invariant_witness:
  "conforming [[1, 0], [0, 2]] [1, 1] [1, 1 / 2]
   \<and> ([2 / 3, 2 / 3], [1 / 3, - 1 / 3], [4 / 9, - 2 / 9])
       \<in> set (loop_heads (gradient_body [[1, 0], [0, 2]] [1, 1] (1 / 10)) [0..<nat 2]
           (zeros_like [1, 1], vsub [1, 1] (matvec [[1, 0], [0, 2]] (zeros_like [1, 1])),
            vsub [1, 1] (matvec [[1, 0], [0, 2]] (zeros_like [1, 1]))))
   \<and> ([2 / 3, 2 / 3], [1 / 3, - 1 / 3], [4 / 9, - 2 / 9], 2 / 9)
       \<in> set (loop_heads (cg_body [[1, 0], [0, 2]] [1, 1] (1 / 10)) [0..<nat 2]
           (zeros_like [1, 1], vsub [1, 1] (matvec [[1, 0], [0, 2]] (zeros_like [1, 1])),
            vsub [1, 1] (matvec [[1, 0], [0, 2]] (zeros_like [1, 1])),
            vdot (vsub [1, 1] (matvec [[1, 0], [0, 2]] (zeros_like [1, 1])))
              (vsub [1, 1] (matvec [[1, 0], [0, 2]] (zeros_like [1, 1])))))
   \<and> [1 / 3, - 1 / 3] = vsub [1, 1] (matvec [[1, 0], [0, 2]] [2 / 3, 2 / 3])"
proof -
  let ?A = "[[1, 0], [0, 2::real]]"
  let ?b = "[1, 1::real]"
  let ?r0 = "vsub ?b (matvec ?A (zeros_like ?b))"
  have c: "conforming ?A ?b [1, 1 / 2]" by (simp add: conforming_def)
  have r0: "?r0 = [1, 1]" "zeros_like ?b = [0, 0]" "vdot [1, 1] [1, 1] = 2"
    "vsub ?b (matvec ?A [0, 0]) = [1, 1]"
    by (simp_all add: zeros_like_def matvec_def vdot_def vsub_def)
  have u: "[0..<nat 2] = [0, 1]" by (simp add: upt_conv_Cons eval_nat_numeral)
  have g: "gradient_body ?A ?b (1 / 10) ([0, 0], [1, 1], [1, 1])
      = (False, [2 / 3, 2 / 3], [1 / 3, - 1 / 3], [4 / 9, - 2 / 9])"
    unfolding gradient_body_def Let_def prod.case
    by (subst norm2_ratio_less) (simp_all add: matvec_def vdot_def vadd_def vsub_def smul_def)
  have k: "cg_body ?A ?b (1 / 10) ([0, 0], [1, 1], [1, 1], 2)
      = (False, [2 / 3, 2 / 3], [1 / 3, - 1 / 3], [4 / 9, - 2 / 9], 2 / 9)"
    unfolding cg_body_def Let_def prod.case
    by (subst sqrt_norm2_ratio_less) (simp_all add: matvec_def vdot_def vadd_def vsub_def smul_def)
  have mg: "([2 / 3, 2 / 3], [1 / 3, - 1 / 3], [4 / 9, - 2 / 9])
       \<in> set (loop_heads (gradient_body ?A ?b (1 / 10)) [0..<nat 2] (zeros_like ?b, ?r0, ?r0))"
    unfolding r0 u by (simp add: g)
  have mc: "([2 / 3, 2 / 3], [1 / 3, - 1 / 3], [4 / 9, - 2 / 9], 2 / 9)
       \<in> set (loop_heads (cg_body ?A ?b (1 / 10)) [0..<nat 2]
           (zeros_like ?b, ?r0, ?r0, vdot ?r0 ?r0))"
    unfolding r0 u by (simp add: k)
  from residual_invariant [OF c, of "1 / 10" 2] mg
  have "[1 / 3, - 1 / 3] = vsub ?b (matvec ?A [2 / 3, 2 / 3])" by fast
  with c mg mc show ?thesis by blast
qed

subsection \<open>The solvers on the store\<close>

text \<open>
  First the frame: a solver allocates and writes only objects that it allocated itself, so
  the store of the caller is a prefix of the final store. Then the solvers on the store
  compute what the solvers on values compute.
\<close>

lemma for_range_invariant:
  assumes "I s0" and step: "\<And>s. I s \<Longrightarrow> I (snd (body s))"
  shows "I (fst (for_range body ks (s0, k0)))"
  using assms(1)
proof (induction ks arbitrary: s0 k0)
  case Nil
  then show ?case by simp
next
  case (Cons k ks)
  obtain f s' where b: "body s0 = (f, s')" by (cases "body s0")
  from step [OF Cons.prems] b have s': "I s'" by simp
  show ?case
  proof (cases f)
    case True
    with b s' show ?thesis by simp
  next
    case False
    with Cons.IH [OF s'] b show ?thesis by simp
  qed
qed

lemma frame_length: "take (length h0) h = h0 \<Longrightarrow> length h0 \<le> length h"
proof -
  assume "take (length h0) h = h0"
  then have "length (take (length h0) h) = length h0" by simp
  then show ?thesis by simp
qed

lemma frame_gs_sweep_h: "n \<le> x \<Longrightarrow> take n (gs_sweep_h A b x_old is x h) = take n h"
  by (induction "is" arbitrary: h) (simp_all add: assign_def)

lemma length_gs_sweep_h: "length (gs_sweep_h A b x_old is x h) = length h"
  by (induction "is" arbitrary: h) (simp_all add: assign_def)

lemma frame_jacobi_body:
  assumes "case s of (h, x) \<Rightarrow> take (length h0) h = h0"
  shows "case snd (jacobi_body_h A D_inv R b tol s) of (h, x) \<Rightarrow> take (length h0) h = h0"
proof -
  obtain h x where s: "s = (h, x)" by (cases s)
  with assms have h: "take (length h0) h = h0" by simp
  note le = frame_length [OF h]
  show ?thesis
    unfolding s jacobi_body_h_def
    by (simp add: alloc_def Let_def h le)
qed

lemma frame_gs_body:
  assumes "case s of (h, x) \<Rightarrow> take (length h0) h = h0 \<and> length h0 \<le> x"
  shows "case snd (gs_body_h A b tol s) of (h, x) \<Rightarrow> take (length h0) h = h0 \<and> length h0 \<le> x"
proof -
  obtain h x where s: "s = (h, x)" by (cases s)
  with assms have h: "take (length h0) h = h0" and x: "length h0 \<le> x" by simp_all
  note le = frame_length [OF h]
  show ?thesis
    unfolding s gs_body_h_def
    by (simp add: alloc_def Let_def h le x frame_gs_sweep_h length_gs_sweep_h le_SucI)
qed

lemma frame_gradient_body:
  assumes "case s of (h, x, r, p) \<Rightarrow> take (length h0) h = h0 \<and> length h0 \<le> x"
  shows "case snd (gradient_body_h A b tol s) of (h, x, r, p) \<Rightarrow>
      take (length h0) h = h0 \<and> length h0 \<le> x"
proof -
  obtain h x r p where s: "s = (h, x, r, p)" by (cases s)
  with assms have h: "take (length h0) h = h0" and x: "length h0 \<le> x" by simp_all
  note le = frame_length [OF h]
  show ?thesis
    unfolding s gradient_body_h_def
    by (simp add: alloc_def assign_def Let_def h le x le_SucI)
qed

lemma frame_cg_body:
  assumes "case s of (h, x, r, p, rsold) \<Rightarrow>
      take (length h0) h = h0 \<and> length h0 \<le> x \<and> length h0 \<le> r"
  shows "case snd (cg_body_h A b tol s) of (h, x, r, p, rsold) \<Rightarrow>
      take (length h0) h = h0 \<and> length h0 \<le> x \<and> length h0 \<le> r"
proof -
  obtain h x r p rsold where s: "s = (h, x, r, p, rsold)" by (cases s)
  with assms have h: "take (length h0) h = h0" and x: "length h0 \<le> x" and r: "length h0 \<le> r"
    by simp_all
  note le = frame_length [OF h]
  show ?thesis
    unfolding s cg_body_h_def
    by (simp add: alloc_def assign_def Let_def h le x r le_SucI)
qed

lemma frame_jacobi_loop:
  assumes "for_range (jacobi_body_h A D_inv R b tol) ks ((h1, x), k0) = ((h', x'), k')"
    and "take (length h0) h1 = h0"
  shows "take (length h0) h' = h0"
proof -
  have "case fst (for_range (jacobi_body_h A D_inv R b tol) ks ((h1, x), k0)) of
      (h, x) \<Rightarrow> take (length h0) h = h0"
    by (rule for_range_invariant) (simp add: assms(2), rule frame_jacobi_body)
  with assms(1) show ?thesis by simp
qed

lemma frame_gs_loop:
  assumes "for_range (gs_body_h A b tol) ks ((h1, x), k0) = ((h', x'), k')"
    and "take (length h0) h1 = h0" and "length h0 \<le> x"
  shows "take (length h0) h' = h0"
proof -
  have "case fst (for_range (gs_body_h A b tol) ks ((h1, x), k0)) of
      (h, x) \<Rightarrow> take (length h0) h = h0 \<and> length h0 \<le> x"
    by (rule for_range_invariant) (simp add: assms(2,3), rule frame_gs_body)
  with assms(1) show ?thesis by simp
qed

lemma frame_gradient_loop:
  assumes "for_range (gradient_body_h A b tol) ks ((h1, x, r, p), k0) = ((h', x', r', p'), k')"
    and "take (length h0) h1 = h0" and "length h0 \<le> x"
  shows "take (length h0) h' = h0"
proof -
  have "case fst (for_range (gradient_body_h A b tol) ks ((h1, x, r, p), k0)) of
      (h, x, r, p) \<Rightarrow> take (length h0) h = h0 \<and> length h0 \<le> x"
    by (rule for_range_invariant) (simp add: assms(2,3), rule frame_gradient_body)
  with assms(1) show ?thesis by simp
qed

lemma frame_cg_loop:
  assumes "for_range (cg_body_h A b tol) ks ((h1, x, r, p, rsold), k0)
      = ((h', x', r', p', rsold'), k')"
    and "take (length h0) h1 = h0" and "length h0 \<le> x" and "length h0 \<le> r"
  shows "take (length h0) h' = h0"
proof -
  have "case fst (for_range (cg_body_h A b tol) ks ((h1, x, r, p, rsold), k0)) of
      (h, x, r, p, rsold) \<Rightarrow> take (length h0) h = h0 \<and> length h0 \<le> x \<and> length h0 \<le> r"
    by (rule for_range_invariant) (simp add: assms(2,3,4), rule frame_cg_body)
  with assms(1) show ?thesis by simp
qed

lemma frame_jacobi: "take (length h) (snd (jacobi_h clk h A b x_exact tol max_iter)) = h"
  unfolding jacobi_h_def
  by (auto simp: alloc_def Let_def split: prod.splits elim!: frame_jacobi_loop)

lemma frame_gauss_seidel:
  "take (length h) (snd (gauss_seidel_h clk h A b x_exact tol max_iter)) = h"
  unfolding gauss_seidel_h_def
  by (auto simp: alloc_def Let_def split: prod.splits elim!: frame_gs_loop)

lemma frame_gradient: "take (length h) (snd (gradient_h clk h A b x_exact tol max_iter)) = h"
  unfolding gradient_h_def
  by (auto simp: alloc_def Let_def split: prod.splits elim!: frame_gradient_loop)

lemma frame_conjugate_gradient:
  "take (length h) (snd (conjugate_gradient_h clk h A b x_exact tol max_iter)) = h"
  unfolding conjugate_gradient_h_def
  by (auto simp: alloc_def Let_def split: prod.splits elim!: frame_cg_loop)

lemma for_range_simulation:
  assumes "R s t"
    and step: "\<And>s t. R s t \<Longrightarrow> fst (f s) = fst (g t) \<and> R (snd (f s)) (snd (g t))"
  shows "R (fst (for_range f ks (s, k))) (fst (for_range g ks (t, k)))
       \<and> snd (for_range f ks (s, k)) = snd (for_range g ks (t, k))"
  using assms(1)
proof (induction ks arbitrary: s t k)
  case Nil
  then show ?case by simp
next
  case (Cons i ks)
  obtain c s' where f: "f s = (c, s')" by (cases "f s")
  obtain d t' where g: "g t = (d, t')" by (cases "g t")
  from step [OF Cons.prems] f g have cd: "c = d" and r: "R s' t'" by simp_all
  show ?case
  proof (cases c)
    case True
    with f g cd r show ?thesis by simp
  next
    case False
    with Cons.IH [OF r, of "Some i"] f g cd show ?thesis by simp
  qed
qed

lemma arr_alloc_old: "a < length h \<Longrightarrow> arr (h @ [v]) a = arr h a"
  by (simp add: arr_def nth_append)

lemma arr_alloc_new: "a = length h \<Longrightarrow> arr (h @ [Array v]) a = v"
  by (simp add: arr_def)

lemma mat_alloc_old: "a < length h \<Longrightarrow> mat_at (h @ [v]) a = mat_at h a"
  by (simp add: mat_at_def nth_append)

lemma mat_alloc_new:
  "a = length h \<Longrightarrow> mat_at (h @ [Sparse m]) a = m"
  "a = length h \<Longrightarrow> mat_at (h @ [Dense m]) a = m"
  by (simp_all add: mat_at_def)

lemma arr_assign_same: "a < length h \<Longrightarrow> arr (assign h a v) a = v"
  by (simp add: arr_def assign_def)

lemma arr_assign_other: "a \<noteq> c \<Longrightarrow> arr (assign h a v) c = arr h c"
  by (simp add: arr_def assign_def)

lemma mat_assign_other: "a \<noteq> c \<Longrightarrow> mat_at (assign h a v) c = mat_at h c"
  by (simp add: mat_at_def assign_def)

lemma length_assign: "length (assign h a v) = length h"
  by (simp add: assign_def)

lemmas store_simps = arr_alloc_old arr_alloc_new mat_alloc_old mat_alloc_new arr_assign_same
  arr_assign_other mat_assign_other length_assign

lemma arr_cong: "h' ! a = h ! a \<Longrightarrow> arr h' a = arr h a"
  by (simp add: arr_def)

lemma mat_at_cong: "h' ! a = h ! a \<Longrightarrow> mat_at h' a = mat_at h a"
  by (simp add: mat_at_def)

lemma jacobi_body_h_refines:
  assumes "A < length h" "b < length h" "D_inv < length h" "R < length h" "x < length h"
  shows "fst (jacobi_body_h A D_inv R b tol (h, x)) =
           fst (jacobi_body (mat_at h A) (mat_at h D_inv) (mat_at h R) (arr h b) tol (arr h x))
       \<and> (case snd (jacobi_body_h A D_inv R b tol (h, x)) of (h', x') \<Rightarrow>
            length h \<le> length h' \<and> (\<forall>a<length h. h' ! a = h ! a) \<and> x' < length h'
            \<and> arr h' x' =
                snd (jacobi_body (mat_at h A) (mat_at h D_inv) (mat_at h R) (arr h b) tol
                       (arr h x)))"
  using assms
  by (simp add: jacobi_body_h_def jacobi_body_def alloc_def Let_def store_simps less_SucI
      nth_append del: append_assoc)

lemma finish_h_refines:
  "read_result (finish_h clk h x x_exact k, h) = finish clk (arr h x) (arr h x_exact) k"
  by (simp add: read_result_def finish_h_def finish_def Let_def split: option.splits)

lemma jacobi_h_refines:
  assumes "inputs_at h A b x_exact Av bv xv"
  shows "read_result (jacobi_h clk h A b x_exact tol max_iter) = jacobi clk Av bv xv tol max_iter"
proof -
  from assms have lt: "A < length h" "b < length h" "x_exact < length h"
    and vals: "mat_at h A = Av" "arr h b = bv" "arr h x_exact = xv"
    by (simp_all add: inputs_at_def arr_def mat_at_def)
  define Dv where "Dv = diags (diagonal Av)"
  define Dinv where "Dinv = diags (map (\<lambda>d. 1 / d) (diagonal Av))"
  define Rv where "Rv = msub Av Dv"
  define h4 where "h4 = h @ [Array (zeros_like bv), Sparse Dv, Sparse Dinv, Sparse Rv]"
  define x0 where "x0 = length h"
  define Di where "Di = Suc (Suc (length h))"
  define Ri where "Ri = Suc (Suc (Suc (length h)))"
  have h4: "A < length h4" "b < length h4" "x_exact < length h4" "Di < length h4"
    "Ri < length h4" "x0 < length h4"
    "mat_at h4 A = Av" "arr h4 b = bv" "arr h4 x_exact = xv" "mat_at h4 Di = Dinv"
    "mat_at h4 Ri = Rv" "arr h4 x0 = zeros_like bv"
    using lt vals by (simp_all add: h4_def x0_def Di_def Ri_def arr_def mat_at_def nth_append)
  let ?Rel = "\<lambda>(h', x') xv'. length h4 \<le> length h' \<and> (\<forall>a<length h4. h' ! a = h4 ! a)
      \<and> x' < length h' \<and> arr h' x' = xv'"
  have step: "fst (jacobi_body_h A Di Ri b tol s) = fst (jacobi_body Av Dinv Rv bv tol t)
      \<and> ?Rel (snd (jacobi_body_h A Di Ri b tol s)) (snd (jacobi_body Av Dinv Rv bv tol t))"
    if "?Rel s t" for s t
  proof -
    obtain h' x' where s: "s = (h', x')" by (cases s)
    from that s have r: "length h4 \<le> length h'" "\<forall>a<length h4. h' ! a = h4 ! a"
      "x' < length h'" "arr h' x' = t" by simp_all
    from r(1,2) h4 have v: "A < length h'" "b < length h'" "Di < length h'" "Ri < length h'"
      "mat_at h' A = Av" "arr h' b = bv" "mat_at h' Di = Dinv" "mat_at h' Ri = Rv"
      by (auto simp: arr_def mat_at_def)
    from jacobi_body_h_refines [OF v(1,2,3,4) r(3), of tol] r show ?thesis
      unfolding s v r(4) by (auto split: prod.splits)
  qed
  have "?Rel (h4, x0) (zeros_like bv)" using h4 by simp
  from for_range_simulation [where R = ?Rel and f = "jacobi_body_h A Di Ri b tol"
      and g = "jacobi_body Av Dinv Rv bv tol" and ks = "[0..<nat max_iter]" and k = None,
      OF this step]
  obtain hf xf k where
    loop: "for_range (jacobi_body_h A Di Ri b tol) [0..<nat max_iter] ((h4, x0), None) = ((hf, xf), k)"
    and pure: "for_range (jacobi_body Av Dinv Rv bv tol) [0..<nat max_iter] (zeros_like bv, None)
        = (arr hf xf, k)"
    and fr: "length h4 \<le> length hf" "\<forall>a<length h4. hf ! a = h4 ! a"
    by (cases "for_range (jacobi_body_h A Di Ri b tol) [0..<nat max_iter] ((h4, x0), None)";
        cases "for_range (jacobi_body Av Dinv Rv bv tol) [0..<nat max_iter] (zeros_like bv, None)")
       auto
  from fr h4 have xe: "arr hf x_exact = xv" by (auto simp: arr_def)
  have "jacobi_h clk h A b x_exact tol max_iter = (finish_h clk hf xf x_exact k, hf)"
    unfolding jacobi_h_def
    using lt vals
    by (simp add: alloc_def Let_def store_simps less_SucI del: append_assoc)
       (use loop in \<open>simp add: h4_def x0_def Di_def Ri_def Dv_def Dinv_def Rv_def\<close>)
  then show ?thesis
    by (simp add: finish_h_refines xe jacobi_def pure Dv_def [symmetric] Dinv_def [symmetric]
        Rv_def [symmetric] Let_def)
qed

lemma gs_sweep_h_refines:
  assumes "x < length h" "x \<noteq> A" "x \<noteq> b" "x \<noteq> x_old"
  shows "arr (gs_sweep_h A b x_old is x h) x =
           gs_sweep (mat_at h A) (arr h b) (arr h x_old) is (arr h x)
       \<and> (\<forall>a. a \<noteq> x \<longrightarrow> gs_sweep_h A b x_old is x h ! a = h ! a)"
  using assms(1)
proof (induction "is" arbitrary: h)
  case Nil
  then show ?case by simp
next
  case (Cons i "is")
  define v where "v = (arr h x)[i :=
          (arr h b ! i - vdot (take i (mat_at h A ! i)) (take i (arr h x))
                       - vdot (drop (i + 1) (mat_at h A ! i)) (drop (i + 1) (arr h x_old)))
            / mat_at h A ! i ! i]"
  define h1 where "h1 = assign h x v"
  have st: "gs_sweep_h A b x_old (i # is) x h = gs_sweep_h A b x_old is x h1"
    by (simp add: v_def h1_def)
  have pu: "gs_sweep (mat_at h A) (arr h b) (arr h x_old) (i # is) (arr h x) =
      gs_sweep (mat_at h A) (arr h b) (arr h x_old) is v"
    by (simp add: v_def)
  from Cons.prems have len: "x < length h1" by (simp add: h1_def length_assign)
  from assms(2,3,4) Cons.prems have same: "mat_at h1 A = mat_at h A" "arr h1 b = arr h b"
    "arr h1 x_old = arr h x_old" "arr h1 x = v"
    by (simp_all add: h1_def store_simps)
  have other: "\<forall>a. a \<noteq> x \<longrightarrow> h1 ! a = h ! a" by (simp add: h1_def assign_def)
  from Cons.IH [OF len] other show ?case
    unfolding st pu same by simp
qed

lemma gs_body_h_refines:
  assumes "A < length h" "b < length h" "x < length h" "x \<noteq> A" "x \<noteq> b"
  shows "fst (gs_body_h A b tol (h, x)) = fst (gs_body (mat_at h A) (arr h b) tol (arr h x))
       \<and> (case snd (gs_body_h A b tol (h, x)) of (h', x') \<Rightarrow>
            x' = x \<and> length h \<le> length h' \<and> (\<forall>a<length h. a \<noteq> x \<longrightarrow> h' ! a = h ! a)
            \<and> arr h' x = snd (gs_body (mat_at h A) (arr h b) tol (arr h x)))"
proof -
  let ?h1 = "h @ [Array (arr h x)]"
  let ?xo = "length h"
  let ?h2 = "gs_sweep_h A b ?xo [0..<length (mat_at ?h1 A)] x ?h1"
  from assms have v1: "mat_at ?h1 A = mat_at h A" "arr ?h1 b = arr h b" "arr ?h1 x = arr h x"
    "arr ?h1 ?xo = arr h x" "x < length ?h1" "x \<noteq> ?xo"
    by (simp_all add: store_simps)
  from gs_sweep_h_refines [OF v1(5) assms(4,5) v1(6), of "[0..<length (mat_at ?h1 A)]"]
  have sw: "arr ?h2 x = gs_sweep (mat_at h A) (arr h b) (arr h x) [0..<length (mat_at h A)] (arr h x)"
    and oth: "\<forall>a. a \<noteq> x \<longrightarrow> ?h2 ! a = ?h1 ! a"
    by (simp_all add: v1)
  from oth assms have v2: "mat_at ?h2 A = mat_at h A" "arr ?h2 b = arr h b"
    by (simp_all add: mat_at_def arr_def nth_append)
  have l2: "length ?h2 = Suc (length h)" by (simp add: length_gs_sweep_h)
  from oth have old: "\<forall>a<length h. a \<noteq> x \<longrightarrow> ?h2 ! a = h ! a"
    by (simp add: nth_append)
  have xl: "x < length ?h2" "A < length ?h2" "b < length ?h2"
    using assms l2 by simp_all
  show ?thesis
    unfolding gs_body_h_def gs_body_def Let_def alloc_def prod.case
    using xl old
    by (simp add: store_simps sw v2 l2 nth_append del: append_assoc)
qed

lemma gauss_seidel_h_refines:
  assumes "inputs_at h A b x_exact Av bv xv"
  shows "read_result (gauss_seidel_h clk h A b x_exact tol max_iter) =
           gauss_seidel clk Av bv xv tol max_iter"
proof -
  from assms have lt: "A < length h" "b < length h" "x_exact < length h"
    and vals: "mat_at h A = Av" "arr h b = bv" "arr h x_exact = xv"
    by (simp_all add: inputs_at_def arr_def mat_at_def)
  define h2 where "h2 = h @ [Array (zeros_like bv), Dense (toarray Av)]"
  define x0 where "x0 = length h"
  define Ad where "Ad = Suc (length h)"
  have h2: "b < length h2" "x_exact < length h2" "Ad < length h2" "x0 < length h2"
    "x0 \<noteq> Ad" "x0 \<noteq> b" "x0 \<noteq> x_exact"
    "arr h2 b = bv" "arr h2 x_exact = xv" "mat_at h2 Ad = toarray Av"
    "arr h2 x0 = zeros_like bv"
    using lt vals by (simp_all add: h2_def x0_def Ad_def arr_def mat_at_def nth_append)
  let ?Rel = "\<lambda>(h', x') xv'. x' = x0 \<and> length h2 \<le> length h'
      \<and> (\<forall>a<length h2. a \<noteq> x0 \<longrightarrow> h' ! a = h2 ! a) \<and> arr h' x0 = xv'"
  have step: "fst (gs_body_h Ad b tol s) = fst (gs_body (toarray Av) bv tol t)
      \<and> ?Rel (snd (gs_body_h Ad b tol s)) (snd (gs_body (toarray Av) bv tol t))"
    if "?Rel s t" for s t
  proof -
    obtain h' x' where "s = (h', x')" by (cases s)
    with that have s: "s = (h', x0)" by simp
    from that s have r: "length h2 \<le> length h'" "\<forall>a<length h2. a \<noteq> x0 \<longrightarrow> h' ! a = h2 ! a"
      "arr h' x0 = t" by simp_all
    from r(1,2) h2 have v: "Ad < length h'" "b < length h'" "x0 < length h'"
      "mat_at h' Ad = toarray Av" "arr h' b = bv"
      by (auto simp: arr_def mat_at_def)
    from gs_body_h_refines [OF v(1,2,3) h2(5,6), of tol] r show ?thesis
      unfolding s v r(3) by (auto split: prod.splits)
  qed
  have "?Rel (h2, x0) (zeros_like bv)" using h2 by simp
  from for_range_simulation [where R = ?Rel and f = "gs_body_h Ad b tol"
      and g = "gs_body (toarray Av) bv tol" and ks = "[0..<nat max_iter]" and k = None,
      OF this step]
  obtain hf xf k where
    loop: "for_range (gs_body_h Ad b tol) [0..<nat max_iter] ((h2, x0), None) = ((hf, xf), k)"
    and pure: "for_range (gs_body (toarray Av) bv tol) [0..<nat max_iter] (zeros_like bv, None)
        = (arr hf xf, k)"
    and fr: "length h2 \<le> length hf" "\<forall>a<length h2. a \<noteq> x0 \<longrightarrow> hf ! a = h2 ! a"
    by (cases "for_range (gs_body_h Ad b tol) [0..<nat max_iter] ((h2, x0), None)";
        cases "for_range (gs_body (toarray Av) bv tol) [0..<nat max_iter] (zeros_like bv, None)")
       auto
  from fr h2 have xe: "arr hf x_exact = xv" by (auto simp: arr_def)
  have "gauss_seidel_h clk h A b x_exact tol max_iter = (finish_h clk hf xf x_exact k, hf)"
    unfolding gauss_seidel_h_def
    using lt vals
    by (simp add: alloc_def Let_def store_simps less_SucI del: append_assoc)
       (use loop in \<open>simp add: h2_def x0_def Ad_def\<close>)
  then show ?thesis
    by (simp add: finish_h_refines xe gauss_seidel_def pure Let_def)
qed

lemma nth_assign_other: "i \<noteq> a \<Longrightarrow> assign h a v ! i = h ! i"
  by (simp add: assign_def)

lemma gradient_body_h_refines:
  assumes "A < length h" "b < length h" "x < length h" "r < length h" "p < length h"
    and "x \<noteq> A" "x \<noteq> b" "x \<noteq> r" "x \<noteq> p"
  shows "fst (gradient_body_h A b tol (h, x, r, p)) =
           fst (gradient_body (mat_at h A) (arr h b) tol (arr h x, arr h r, arr h p))
       \<and> (case snd (gradient_body_h A b tol (h, x, r, p)) of (h', x', r', p') \<Rightarrow>
            x' = x \<and> length h \<le> length h' \<and> (\<forall>a<length h. a \<noteq> x \<longrightarrow> h' ! a = h ! a)
            \<and> r' < length h' \<and> p' < length h' \<and> x \<noteq> r' \<and> x \<noteq> p'
            \<and> (arr h' x, arr h' r', arr h' p') =
                snd (gradient_body (mat_at h A) (arr h b) tol (arr h x, arr h r, arr h p)))"
  using assms
  by (simp add: gradient_body_h_def gradient_body_def alloc_def Let_def store_simps less_SucI
      nth_append nth_assign_other del: append_assoc)

lemma cg_body_h_refines:
  assumes "A < length h" "b < length h" "x < length h" "r < length h" "p < length h"
    and "x \<noteq> A" "x \<noteq> b" "x \<noteq> r" "x \<noteq> p" "r \<noteq> A" "r \<noteq> b" "r \<noteq> p"
  shows "fst (cg_body_h A b tol (h, x, r, p, rsold)) =
           fst (cg_body (mat_at h A) (arr h b) tol (arr h x, arr h r, arr h p, rsold))
       \<and> (case snd (cg_body_h A b tol (h, x, r, p, rsold)) of (h', x', r', p', rsold') \<Rightarrow>
            x' = x \<and> r' = r \<and> length h \<le> length h'
            \<and> (\<forall>a<length h. a \<noteq> x \<longrightarrow> a \<noteq> r \<longrightarrow> h' ! a = h ! a)
            \<and> p' < length h' \<and> x \<noteq> p' \<and> r \<noteq> p'
            \<and> (arr h' x, arr h' r, arr h' p', rsold') =
                snd (cg_body (mat_at h A) (arr h b) tol (arr h x, arr h r, arr h p, rsold)))"
  using assms
  by (simp add: cg_body_h_def cg_body_def alloc_def Let_def store_simps less_SucI
      nth_append nth_assign_other del: append_assoc)

lemma gradient_h_refines:
  assumes "inputs_at h A b x_exact Av bv xv"
  shows "read_result (gradient_h clk h A b x_exact tol max_iter) =
           gradient clk Av bv xv tol max_iter"
proof -
  from assms have lt: "A < length h" "b < length h" "x_exact < length h"
    and vals: "mat_at h A = Av" "arr h b = bv" "arr h x_exact = xv"
    by (simp_all add: inputs_at_def arr_def mat_at_def)
  define r0 where "r0 = vsub bv (matvec Av (zeros_like bv))"
  define h3 where "h3 = h @ [Array (zeros_like bv), Array r0, Array r0]"
  define x0 where "x0 = length h"
  define ri where "ri = Suc (length h)"
  define pi where "pi = Suc (Suc (length h))"
  have h3: "A < length h3" "b < length h3" "x_exact < length h3" "x0 < length h3"
    "ri < length h3" "pi < length h3"
    "x0 \<noteq> A" "x0 \<noteq> b" "x0 \<noteq> x_exact" "x0 \<noteq> ri" "x0 \<noteq> pi"
    "mat_at h3 A = Av" "arr h3 b = bv" "arr h3 x_exact = xv"
    "arr h3 x0 = zeros_like bv" "arr h3 ri = r0" "arr h3 pi = r0"
    using lt vals
    by (simp_all add: h3_def x0_def ri_def pi_def arr_def mat_at_def nth_append)
  let ?Rel = "\<lambda>(h', x', r', p') (xv', rv', pv'). x' = x0 \<and> length h3 \<le> length h'
      \<and> (\<forall>a<length h3. a \<noteq> x0 \<longrightarrow> h' ! a = h3 ! a)
      \<and> r' < length h' \<and> p' < length h' \<and> x0 \<noteq> r' \<and> x0 \<noteq> p'
      \<and> arr h' x0 = xv' \<and> arr h' r' = rv' \<and> arr h' p' = pv'"
  have step: "fst (gradient_body_h A b tol s) = fst (gradient_body Av bv tol t)
      \<and> ?Rel (snd (gradient_body_h A b tol s)) (snd (gradient_body Av bv tol t))"
    if "?Rel s t" for s t
  proof -
    obtain h' x' r' p' where "s = (h', x', r', p')" by (cases s)
    with that have s: "s = (h', x0, r', p')" by (cases t) simp
    obtain xv' rv' pv' where t: "t = (xv', rv', pv')" by (cases t)
    from that s t have r: "length h3 \<le> length h'"
      "\<forall>a<length h3. a \<noteq> x0 \<longrightarrow> h' ! a = h3 ! a"
      "r' < length h'" "p' < length h'" "x0 \<noteq> r'" "x0 \<noteq> p'"
      and e: "arr h' x0 = xv'" "arr h' r' = rv'" "arr h' p' = pv'" by simp_all
    from r(1,2) h3 have v: "A < length h'" "b < length h'" "x0 < length h'"
      "mat_at h' A = Av" "arr h' b = bv"
      by (auto simp: arr_def mat_at_def)
    from gradient_body_h_refines [OF v(1,2,3) r(3,4) h3(7,8) r(5,6), of tol] r show ?thesis
      unfolding s t v e by (auto split: prod.splits)
  qed
  have "?Rel (h3, x0, ri, pi) (zeros_like bv, r0, r0)" using h3 by simp
  from for_range_simulation [where R = ?Rel and f = "gradient_body_h A b tol"
      and g = "gradient_body Av bv tol" and ks = "[0..<nat max_iter]" and k = None,
      OF this step]
  obtain hf xf rf pf rv' pv' k where
    loop: "for_range (gradient_body_h A b tol) [0..<nat max_iter] ((h3, x0, ri, pi), None)
        = ((hf, xf, rf, pf), k)"
    and pure: "for_range (gradient_body Av bv tol) [0..<nat max_iter]
        ((zeros_like bv, r0, r0), None) = ((arr hf xf, rv', pv'), k)"
    and fr: "length h3 \<le> length hf" "\<forall>a<length h3. a \<noteq> x0 \<longrightarrow> hf ! a = h3 ! a"
    by (cases "for_range (gradient_body_h A b tol) [0..<nat max_iter] ((h3, x0, ri, pi), None)";
        cases "for_range (gradient_body Av bv tol) [0..<nat max_iter]
          ((zeros_like bv, r0, r0), None)")
       auto
  from fr h3 have xe: "arr hf x_exact = xv" by (auto simp: arr_def)
  have "gradient_h clk h A b x_exact tol max_iter = (finish_h clk hf xf x_exact k, hf)"
    unfolding gradient_h_def
    using lt vals
    by (simp add: alloc_def Let_def store_simps less_SucI del: append_assoc)
       (use loop in \<open>simp add: h3_def x0_def ri_def pi_def r0_def\<close>)
  then show ?thesis
    by (simp add: finish_h_refines xe gradient_def pure r0_def [symmetric] Let_def)
qed

lemma conjugate_gradient_h_refines:
  assumes "inputs_at h A b x_exact Av bv xv"
  shows "read_result (conjugate_gradient_h clk h A b x_exact tol max_iter) =
           conjugate_gradient clk Av bv xv tol max_iter"
proof -
  from assms have lt: "A < length h" "b < length h" "x_exact < length h"
    and vals: "mat_at h A = Av" "arr h b = bv" "arr h x_exact = xv"
    by (simp_all add: inputs_at_def arr_def mat_at_def)
  define r0 where "r0 = vsub bv (matvec Av (zeros_like bv))"
  define h3 where "h3 = h @ [Array (zeros_like bv), Array r0, Array r0]"
  define x0 where "x0 = length h"
  define ri where "ri = Suc (length h)"
  define pi where "pi = Suc (Suc (length h))"
  have h3: "A < length h3" "b < length h3" "x_exact < length h3" "x0 < length h3"
    "ri < length h3" "pi < length h3"
    "x0 \<noteq> A" "x0 \<noteq> b" "x0 \<noteq> x_exact" "x0 \<noteq> ri" "x0 \<noteq> pi"
    "ri \<noteq> A" "ri \<noteq> b" "ri \<noteq> x_exact" "ri \<noteq> pi"
    "mat_at h3 A = Av" "arr h3 b = bv" "arr h3 x_exact = xv"
    "arr h3 x0 = zeros_like bv" "arr h3 ri = r0" "arr h3 pi = r0"
    using lt vals
    by (simp_all add: h3_def x0_def ri_def pi_def arr_def mat_at_def nth_append)
  let ?Rel = "\<lambda>(h', x', r', p', rs') (xv', rv', pv', rsv'). x' = x0 \<and> r' = ri
      \<and> length h3 \<le> length h'
      \<and> (\<forall>a<length h3. a \<noteq> x0 \<longrightarrow> a \<noteq> ri \<longrightarrow> h' ! a = h3 ! a)
      \<and> p' < length h' \<and> x0 \<noteq> p' \<and> ri \<noteq> p'
      \<and> arr h' x0 = xv' \<and> arr h' ri = rv' \<and> arr h' p' = pv' \<and> rs' = rsv'"
  have step: "fst (cg_body_h A b tol s) = fst (cg_body Av bv tol t)
      \<and> ?Rel (snd (cg_body_h A b tol s)) (snd (cg_body Av bv tol t))"
    if "?Rel s t" for s t
  proof -
    obtain h' x' r' p' rs' where "s = (h', x', r', p', rs')" by (cases s)
    with that have s: "s = (h', x0, ri, p', rs')" by (cases t) simp
    obtain xv' rv' pv' rsv' where t: "t = (xv', rv', pv', rsv')" by (cases t)
    from that s t have r: "length h3 \<le> length h'"
      "\<forall>a<length h3. a \<noteq> x0 \<longrightarrow> a \<noteq> ri \<longrightarrow> h' ! a = h3 ! a"
      "p' < length h'" "x0 \<noteq> p'" "ri \<noteq> p'"
      and e: "arr h' x0 = xv'" "arr h' ri = rv'" "arr h' p' = pv'" "rs' = rsv'" by simp_all
    from r(1,2) h3 have v: "A < length h'" "b < length h'" "x0 < length h'" "ri < length h'"
      "mat_at h' A = Av" "arr h' b = bv"
      by (auto simp: arr_def mat_at_def)
    from cg_body_h_refines [OF v(1,2,3,4) r(3) h3(7,8,10) r(4) h3(12,13) r(5), of tol rs'] r
    show ?thesis
      unfolding s t v e by (auto split: prod.splits)
  qed
  have "?Rel (h3, x0, ri, pi, vdot r0 r0) (zeros_like bv, r0, r0, vdot r0 r0)" using h3 by simp
  from for_range_simulation [where R = ?Rel and f = "cg_body_h A b tol"
      and g = "cg_body Av bv tol" and ks = "[0..<nat max_iter]" and k = None,
      OF this step]
  obtain hf xf rf pf rsf rv' pv' rsv' k where
    loop: "for_range (cg_body_h A b tol) [0..<nat max_iter] ((h3, x0, ri, pi, vdot r0 r0), None)
        = ((hf, xf, rf, pf, rsf), k)"
    and pure: "for_range (cg_body Av bv tol) [0..<nat max_iter]
        ((zeros_like bv, r0, r0, vdot r0 r0), None) = ((arr hf xf, rv', pv', rsv'), k)"
    and fr: "length h3 \<le> length hf"
      "\<forall>a<length h3. a \<noteq> x0 \<longrightarrow> a \<noteq> ri \<longrightarrow> hf ! a = h3 ! a"
    by (cases "for_range (cg_body_h A b tol) [0..<nat max_iter]
          ((h3, x0, ri, pi, vdot r0 r0), None)";
        cases "for_range (cg_body Av bv tol) [0..<nat max_iter]
          ((zeros_like bv, r0, r0, vdot r0 r0), None)")
       auto
  from fr h3 have xe: "arr hf x_exact = xv" by (auto simp: arr_def)
  have "conjugate_gradient_h clk h A b x_exact tol max_iter = (finish_h clk hf xf x_exact k, hf)"
    unfolding conjugate_gradient_h_def
    using lt vals
    by (simp add: alloc_def Let_def store_simps less_SucI del: append_assoc)
       (use loop in \<open>simp add: h3_def x0_def ri_def pi_def r0_def\<close>)
  then show ?thesis
    by (simp add: finish_h_refines xe conjugate_gradient_def pure r0_def [symmetric] Let_def)
qed

lemma inputs_at_frame:
  assumes "take (length h) h' = h" and "inputs_at h A b x_exact Av bv xv"
  shows "inputs_at h' A b x_exact Av bv xv"
proof -
  from assms(1) have le: "length h \<le> length h'" by (rule frame_length)
  have "h' ! a = h ! a" if "a < length h" for a
    using that assms(1) by (metis nth_take)
  with assms(2) le show ?thesis by (auto simp: inputs_at_def)
qed

text \<open>
  Claim C9. For every store and every three references, the store after a call of any of
  the four solvers begins with the store before the call: no object that existed before
  the call is written, whatever it is. In particular, when the caller holds a sparse
  matrix \<open>A\<close> and arrays \<open>b\<close> and \<open>x_exact\<close>, the three references hold the same sparse
  matrix and the same arrays after the call; the dense copy of Gauss-Seidel is a new
  object.
\<close>

theorem solvers_leave_inputs_unchanged:
  "take (length h) (snd (jacobi_h clk h A b x_exact tol max_iter)) = h
   \<and> take (length h) (snd (gauss_seidel_h clk h A b x_exact tol max_iter)) = h
   \<and> take (length h) (snd (gradient_h clk h A b x_exact tol max_iter)) = h
   \<and> take (length h) (snd (conjugate_gradient_h clk h A b x_exact tol max_iter)) = h
   \<and> (inputs_at h A b x_exact Av bv xv \<longrightarrow>
        inputs_at (snd (jacobi_h clk h A b x_exact tol max_iter)) A b x_exact Av bv xv
      \<and> inputs_at (snd (gauss_seidel_h clk h A b x_exact tol max_iter)) A b x_exact Av bv xv
      \<and> inputs_at (snd (gradient_h clk h A b x_exact tol max_iter)) A b x_exact Av bv xv
      \<and> inputs_at (snd (conjugate_gradient_h clk h A b x_exact tol max_iter)) A b x_exact
           Av bv xv)"
  using frame_jacobi [of h clk A b x_exact tol max_iter]
    frame_gauss_seidel [of h clk A b x_exact tol max_iter]
    frame_gradient [of h clk A b x_exact tol max_iter]
    frame_conjugate_gradient [of h clk A b x_exact tol max_iter]
  by (simp add: inputs_at_frame)

theorem solvers_leave_inputs_unchanged_witness:
  "inputs_at [Sparse [[2, 1], [1, 2]], Array [3, 3], Array [1, 1]] 0 1 2
     [[2, 1], [1, 2]] [3, 3] [1, 1]
   \<and> inputs_at (snd (gauss_seidel_h (0, 1) [Sparse [[2, 1], [1, 2]], Array [3, 3], Array [1, 1]]
         0 1 2 (1 / 10) 20000)) 0 1 2 [[2, 1], [1, 2]] [3, 3] [1, 1]
   \<and> inputs_at (snd (conjugate_gradient_h (0, 1)
         [Sparse [[2, 1], [1, 2]], Array [3, 3], Array [1, 1]] 0 1 2 (1 / 10) 20000)) 0 1 2
         [[2, 1], [1, 2]] [3, 3] [1, 1]"
proof -
  have i: "inputs_at [Sparse [[2, 1], [1, 2]], Array [3, 3], Array [1, 1]] 0 1 2
     [[2, 1], [1, 2]] [3, 3] [1, 1]"
    by (simp add: inputs_at_def)
  from solvers_leave_inputs_unchanged [of "[Sparse [[2, 1], [1, 2]], Array [3, 3], Array [1, 1]]"
      "(0, 1)" 0 1 2 "1 / 10" 20000 "[[2, 1], [1, 2]]" "[3, 3]" "[1, 1]"] i
  show ?thesis by blast
qed

end
